theory Spec2Isabelle
  imports Complex_Main "HOL-Library.AList"
begin

section \<open>Numbers, objects and time\<close>

text \<open>
  The service is written in JavaScript. Its numbers are modelled as reals (arithmetic
  without rounding), its strings as \<open>string\<close>, its arrays as lists, and an instant
  (\<open>Date.now()\<close>, \<open>new Date(s).getTime()\<close>) as an integer count of milliseconds
  since the epoch. Where the code can leave the finite numbers the model uses \<open>jsnum\<close>:
  a division whose divisor may be zero (\<open>calculateVolatility\<close>), the reading of a date
  field that the caller left out (\<open>registrationDate\<close>, \<open>lastActivity\<close>), and the
  arithmetic on a field that an object does not have. Every comparison with \<open>NaN\<close> is
  false, as in the language.
\<close>

datatype jsnum = Fin real | PInf | NInf | NaN

definition js_div :: "real \<Rightarrow> real \<Rightarrow> jsnum" where
  "js_div x y =
     (if y \<noteq> 0 then Fin (x / y)
      else if x > 0 then PInf
      else if x < 0 then NInf
      else NaN)"

fun js_lt :: "jsnum \<Rightarrow> real \<Rightarrow> bool" where
  "js_lt (Fin x) c = (x < c)"
| "js_lt NInf c = True"
| "js_lt PInf c = False"
| "js_lt NaN c = False"

fun js_gt :: "jsnum \<Rightarrow> real \<Rightarrow> bool" where
  "js_gt (Fin x) c = (x > c)"
| "js_gt PInf c = True"
| "js_gt NInf c = False"
| "js_gt NaN c = False"

fun js_le :: "jsnum \<Rightarrow> jsnum \<Rightarrow> bool" where
  "js_le NaN y = False"
| "js_le x NaN = False"
| "js_le NInf y = True"
| "js_le x PInf = True"
| "js_le (Fin x) (Fin y) = (x \<le> y)"
| "js_le x y = False"

fun js_neg :: "jsnum \<Rightarrow> jsnum" where
  "js_neg (Fin x) = Fin (- x)"
| "js_neg PInf = NInf"
| "js_neg NInf = PInf"
| "js_neg NaN = NaN"

fun js_add :: "jsnum \<Rightarrow> jsnum \<Rightarrow> jsnum" where
  "js_add NaN y = NaN"
| "js_add x NaN = NaN"
| "js_add (Fin x) (Fin y) = Fin (x + y)"
| "js_add PInf NInf = NaN"
| "js_add NInf PInf = NaN"
| "js_add PInf y = PInf"
| "js_add NInf y = NInf"
| "js_add (Fin x) y = y"

definition js_sub :: "jsnum \<Rightarrow> jsnum \<Rightarrow> jsnum" where
  "js_sub x y = js_add x (js_neg y)"

text \<open>The product of a number and a finite factor.\<close>

fun js_scale :: "jsnum \<Rightarrow> real \<Rightarrow> jsnum" where
  "js_scale (Fin x) q = Fin (x * q)"
| "js_scale NaN q = NaN"
| "js_scale PInf q = (if q > 0 then PInf else if q < 0 then NInf else NaN)"
| "js_scale NInf q = (if q > 0 then NInf else if q < 0 then PInf else NaN)"

type_synonym instant = int

text \<open>
  An object literal used as a table is an association list of its own keys. Reading
  \<open>table[key]\<close> gives the own value, or, for a name that every object inherits from
  \<open>Object.prototype\<close>, the inherited value (a function, or the prototype itself for
  \<open>__proto__\<close>: always truthy, and without any field of the table's values), or
  \<open>undefined\<close>.
\<close>

definition inheritedNames :: "string list" where
  "inheritedNames =
     [''constructor'', ''hasOwnProperty'', ''isPrototypeOf'', ''propertyIsEnumerable'',
      ''toLocaleString'', ''toString'', ''valueOf'', ''__proto__'',
      ''__defineGetter__'', ''__defineSetter__'', ''__lookupGetter__'', ''__lookupSetter__'']"

datatype 'a property = Own 'a | Inherited | Missing

definition getProperty :: "(string \<times> 'a) list \<Rightarrow> string \<Rightarrow> 'a property" where
  "getProperty table key =
     (case map_of table key of
        Some v \<Rightarrow> Own v
      | None \<Rightarrow> if key \<in> set inheritedNames then Inherited else Missing)"

datatype jsError = RedisError | SyntaxError | AxiosError | TypeError

definition msPerDay :: real where
  "msPerDay = 1000 * 60 * 60 * 24"

section \<open>BehaviorAnalyzer\<close>

subsection \<open>Input records\<close>

record deposit =
  d_date :: instant
  d_amount :: real

record bet =
  b_date :: instant
  b_amount :: real
  b_result :: string

text \<open>A session without \<open>duration\<close> has the duration 0 (\<open>s.duration || 0\<close>).\<close>

record session =
  startTime :: instant
  duration :: real

text \<open>
  \<open>registrationDate\<close> and \<open>lastActivity\<close> have no default in the destructuring of
  \<open>analyze\<close>; \<open>None\<close> is the field left out (or not a date), which \<open>new Date\<close>
  turns into an invalid date whose time is \<open>NaN\<close>.
\<close>

record userData =
  depositHistory :: "deposit list"
  betHistory :: "bet list"
  sessionHistory :: "session list"
  registrationDate :: "instant option"
  lastActivity :: "instant option"

subsection \<open>Results of the sub-analyses\<close>

record depositAnalysis =
  dep_frequency :: real
  dep_averageAmount :: real
  dep_trend :: string
  dep_volatility :: jsnum
  dep_totalDeposits :: "nat option"
  dep_totalAmount :: "real option"

record bettingAnalysis =
  bet_frequency :: real
  bet_averageAmount :: real
  bet_winRate :: real
  bet_riskProfile :: string
  bet_totalBets :: "nat option"
  bet_totalAmount :: "real option"

record sessionAnalysis =
  ses_averageDuration :: real
  ses_frequency :: real
  ses_peakHours :: "nat list"
  ses_totalSessions :: "nat option"

record temporalAnalysis =
  accountAge :: jsnum
  daysSinceLastActivity :: jsnum
  activityLevel :: string

record analyses =
  depositAnalysis :: depositAnalysis
  bettingAnalysis :: bettingAnalysis
  sessionAnalysis :: sessionAnalysis
  temporalAnalysis :: temporalAnalysis

record behaviorAnalysis =
  score :: real
  riskLevel :: string
  patterns :: "string list"
  details :: analyses

subsection \<open>Helper methods\<close>

definition calculateTrend :: "real list \<Rightarrow> string" where
  "calculateTrend vals =
     (if length vals < 2 then ''stable''
      else
        let firstHalf = take (length vals div 2) vals;
            secondHalf = drop (length vals div 2) vals;
            firstAvg = sum_list firstHalf / real (length firstHalf);
            secondAvg = sum_list secondHalf / real (length secondHalf)
        in if secondAvg > firstAvg * 1.1 then ''increasing''
           else if secondAvg < firstAvg * 0.9 then ''decreasing''
           else ''stable'')"

definition calculateVolatility :: "real list \<Rightarrow> jsnum" where
  "calculateVolatility vals =
     (if length vals < 2 then Fin 0
      else
        let mean = sum_list vals / real (length vals);
            variance = sum_list (map (\<lambda>val. (val - mean) ^ 2) vals) / real (length vals)
        in js_div (sqrt variance) mean)"

fun maxAmount :: "real list \<Rightarrow> real" where
  "maxAmount [] = 0"
| "maxAmount [x] = x"
| "maxAmount (x # y # ys) = max x (maxAmount (y # ys))"

text \<open>
  \<open>determineRiskProfile\<close> is only called on a non-empty history. On an empty array
  the average is \<open>0/0 = NaN\<close> and both comparisons fail, which is the first equation.
\<close>

fun determineRiskProfile :: "real list \<Rightarrow> string" where
  "determineRiskProfile [] = ''moderate''"
| "determineRiskProfile amounts =
     (let avgAmount = sum_list amounts / real (length amounts);
          maxAmt = maxAmount amounts
      in if maxAmt > avgAmount * 5 then ''aggressive''
         else if avgAmount < 10 then ''conservative''
         else ''moderate'')"

definition calculateActivityLevel :: "jsnum \<Rightarrow> jsnum \<Rightarrow> string" where
  "calculateActivityLevel age days =
     (if js_lt days 1 then ''very_high''
      else if js_lt days 7 then ''high''
      else if js_lt days 30 then ''medium''
      else ''low'')"

text \<open>
  \<open>daysDiff\<close> of the three frequency computations:
  \<open>Math.max(1, (last - first) / (1000 * 60 * 60 * 24))\<close>.
\<close>

definition daysDiff :: "instant \<Rightarrow> instant \<Rightarrow> real" where
  "daysDiff first lst = max 1 (real_of_int (lst - first) / msPerDay)"

subsection \<open>Peak hours\<close>

text \<open>
  \<open>hourCounts\<close> is an object whose keys are hours. The language enumerates the
  integer keys of an object in ascending numeric order, whatever the order of insertion,
  so \<open>Object.entries(hourCounts)\<close> is the list of (hour, count) pairs by ascending
  hour: the model keeps the pairs in that order.
\<close>

fun countHour :: "nat \<Rightarrow> (nat \<times> nat) list \<Rightarrow> (nat \<times> nat) list" where
  "countHour h [] = [(h, 1)]"
| "countHour h ((k, c) # kcs) =
     (if h = k then (k, c + 1) # kcs
      else if h < k then (h, 1) # (k, c) # kcs
      else (k, c) # countHour h kcs)"

definition hourCounts :: "nat list \<Rightarrow> (nat \<times> nat) list" where
  "hourCounts hs = foldl (\<lambda>acc h. countHour h acc) [] hs"

text \<open>
  \<open>Array.prototype.sort\<close> with a comparator, as V8 (Node.js 11 and later) runs it on an
  array of fewer than 64 elements. The result \<open>v\<close> of \<open>cmp a b\<close> is read as \<open>+0\<close>
  when it is \<open>NaN\<close>, and every decision is the test \<open>v < 0\<close> (\<open>negative\<close>). The
  sort first finds the run at the start of the array (\<open>countRun\<close>): with
  \<open>isDescending\<close> the answer of \<open>cmp a[1] a[0] < 0\<close>, the run goes on while each
  element compares to the one before it as the second did to the first, and a descending
  run is reversed in place. Every later element is then inserted into the sorted part, at
  the place that a binary search finds (\<open>binarySearch\<close>, \<open>binaryInsert\<close>).

  The arrays that the service sorts are that short: \<open>potentials\<close> has at most 14 keys
  (lemma \<open>potentials_short\<close>) and a day has 24 hours (lemma \<open>hourCounts_short\<close>).
  On a longer array V8 sorts pieces of the array in this way and
  merges them; the model sorts the whole array by insertion, which gives the same array
  whenever the comparator is consistent, both sorts being stable.
\<close>

fun negative :: "jsnum \<Rightarrow> bool" where
  "negative (Fin v) = (v < 0)"
| "negative NInf = True"
| "negative PInf = False"
| "negative NaN = False"

fun countRun :: "('a \<Rightarrow> 'a \<Rightarrow> jsnum) \<Rightarrow> bool \<Rightarrow> 'a \<Rightarrow> 'a list \<Rightarrow> nat" where
  "countRun cmp isDescending previousElement [] = 0"
| "countRun cmp isDescending previousElement (currentElement # rest) =
     (if negative (cmp currentElement previousElement) = isDescending
      then Suc (countRun cmp isDescending currentElement rest)
      else 0)"

function binarySearch :: "('a \<Rightarrow> 'a \<Rightarrow> jsnum) \<Rightarrow> 'a \<Rightarrow> 'a list \<Rightarrow> nat \<Rightarrow> nat \<Rightarrow> nat" where
  "binarySearch cmp pivot xs left right =
     (if left < right then
        (let mid = left + (right - left) div 2 in
         if negative (cmp pivot (xs ! mid)) then binarySearch cmp pivot xs left mid
         else binarySearch cmp pivot xs (mid + 1) right)
      else left)"
  by pat_completeness auto
termination
  by (relation "measure (\<lambda>(cmp, pivot, xs, left, right). right - left)") auto

declare binarySearch.simps [simp del]

definition binaryInsert :: "('a \<Rightarrow> 'a \<Rightarrow> jsnum) \<Rightarrow> 'a list \<Rightarrow> 'a \<Rightarrow> 'a list" where
  "binaryInsert cmp xs pivot =
     (let left = binarySearch cmp pivot xs 0 (length xs)
      in take left xs @ pivot # drop left xs)"

definition js_sort :: "('a \<Rightarrow> 'a \<Rightarrow> jsnum) \<Rightarrow> 'a list \<Rightarrow> 'a list" where
  "js_sort cmp xs =
     (case xs of
        elementHigh # elementLow # rest \<Rightarrow>
          (let isDescending = negative (cmp elementLow elementHigh);
               runLength = 2 + countRun cmp isDescending elementLow rest;
               run = take runLength xs
           in foldl (binaryInsert cmp) (if isDescending then rev run else run)
                (drop runLength xs))
      | _ \<Rightarrow> xs)"

text \<open>
  \<open>getHours\<close> is the hour of an instant in the time zone of the host, a parameter of
  the model; \<open>utcHours\<close> is that function on a host in UTC.
\<close>

definition utcHours :: "instant \<Rightarrow> nat" where
  "utcHours t = nat ((t div 3600000) mod 24)"

definition identifyPeakHours :: "(instant \<Rightarrow> nat) \<Rightarrow> session list \<Rightarrow> nat list" where
  "identifyPeakHours getHours sessions =
     (let counts = hourCounts (map (\<lambda>s. getHours (startTime s)) sessions);
          sortedHours = map fst (take 3
             (js_sort (\<lambda>a b. Fin (real (snd b) - real (snd a))) counts))
      in sortedHours)"

text \<open>
  The order that the specification asks of the peak hours: the hour \<open>a\<close> ranks
  before \<open>b\<close> when it starts more sessions, or as many and is the lower hour.
  \<open>countMap hs\<close> is the table of the hours \<open>hs\<close> with the number of times each
  occurs.
\<close>

definition ranksBefore :: "nat list \<Rightarrow> nat \<Rightarrow> nat \<Rightarrow> bool" where
  "ranksBefore hs a b =
     (count_list hs b < count_list hs a \<or> (count_list hs a = count_list hs b \<and> a < b))"

definition countMap :: "nat list \<Rightarrow> nat \<Rightarrow> nat option" where
  "countMap xs h = (if h \<in> set xs then Some (count_list xs h) else None)"

subsection \<open>The four analyses\<close>

definition analyzeDeposits :: "deposit list \<Rightarrow> depositAnalysis" where
  "analyzeDeposits hist =
     (if hist = [] then
        \<lparr>dep_frequency = 0, dep_averageAmount = 0, dep_trend = ''none'',
         dep_volatility = Fin 0, dep_totalDeposits = None, dep_totalAmount = None\<rparr>
      else
        let amounts = map d_amount hist;
            averageAmount = sum_list amounts / real (length amounts);
            frequency = real (length hist) / daysDiff (d_date (hd hist)) (d_date (last hist))
        in \<lparr>dep_frequency = frequency, dep_averageAmount = averageAmount,
            dep_trend = calculateTrend amounts,
            dep_volatility = calculateVolatility amounts,
            dep_totalDeposits = Some (length hist),
            dep_totalAmount = Some (sum_list amounts)\<rparr>)"

definition analyzeBetting :: "bet list \<Rightarrow> bettingAnalysis" where
  "analyzeBetting hist =
     (if hist = [] then
        \<lparr>bet_frequency = 0, bet_averageAmount = 0, bet_winRate = 0,
         bet_riskProfile = ''unknown'', bet_totalBets = None, bet_totalAmount = None\<rparr>
      else
        let amounts = map b_amount hist;
            averageAmount = sum_list amounts / real (length amounts);
            wins = length (filter (\<lambda>b. b_result b = ''win'') hist);
            winRate = real wins / real (length hist);
            frequency = real (length hist) / daysDiff (b_date (hd hist)) (b_date (last hist))
        in \<lparr>bet_frequency = frequency, bet_averageAmount = averageAmount,
            bet_winRate = winRate,
            bet_riskProfile = determineRiskProfile amounts,
            bet_totalBets = Some (length hist),
            bet_totalAmount = Some (sum_list amounts)\<rparr>)"

definition analyzeSessions :: "(instant \<Rightarrow> nat) \<Rightarrow> session list \<Rightarrow> sessionAnalysis" where
  "analyzeSessions getHours hist =
     (if hist = [] then
        \<lparr>ses_averageDuration = 0, ses_frequency = 0, ses_peakHours = [],
         ses_totalSessions = None\<rparr>
      else
        let durations = map duration hist;
            averageDuration = sum_list durations / real (length durations);
            frequency =
              real (length hist) / daysDiff (startTime (hd hist)) (startTime (last hist))
        in \<lparr>ses_averageDuration = averageDuration, ses_frequency = frequency,
            ses_peakHours = identifyPeakHours getHours hist,
            ses_totalSessions = Some (length hist)\<rparr>)"

definition daysSince :: "instant \<Rightarrow> instant option \<Rightarrow> jsnum" where
  "daysSince now d =
     (case d of None \<Rightarrow> NaN | Some t \<Rightarrow> Fin (real_of_int (now - t) / msPerDay))"

definition analyzeTemporalPatterns :: "instant \<Rightarrow> userData \<Rightarrow> temporalAnalysis" where
  "analyzeTemporalPatterns now u =
     (let age = daysSince now (registrationDate u);
          days = daysSince now (lastActivity u)
      in \<lparr>accountAge = age, daysSinceLastActivity = days,
          activityLevel = calculateActivityLevel age days\<rparr>)"

subsection \<open>Score, risk level and patterns\<close>

definition calculateBehaviorScore :: "analyses \<Rightarrow> real" where
  "calculateBehaviorScore a =
     (let score = 50;
          score = (if dep_frequency (depositAnalysis a) > 0.1 then score + 10 else score);
          score = (if dep_averageAmount (depositAnalysis a) > 100 then score + 10 else score);
          score = (if js_lt (dep_volatility (depositAnalysis a)) 0.5 then score + 5 else score);
          score = (if bet_winRate (bettingAnalysis a) > 0.4 then score + 10 else score);
          score = (if bet_frequency (bettingAnalysis a) > 1 then score + 5 else score);
          score = (if bet_riskProfile (bettingAnalysis a) = ''conservative''
                   then score + 10 else score);
          score = (if ses_frequency (sessionAnalysis a) > 0.5 then score + 5 else score);
          score = (if ses_averageDuration (sessionAnalysis a) > 30 then score + 5 else score);
          score = (if activityLevel (temporalAnalysis a) = ''high'' then score + 10 else score);
          score = (if js_lt (daysSinceLastActivity (temporalAnalysis a)) 7
                   then score + 5 else score)
      in min 100 (max 0 score))"

definition determineRiskLevel :: "real \<Rightarrow> string" where
  "determineRiskLevel s =
     (if s \<ge> 80 then ''low''
      else if s \<ge> 60 then ''medium''
      else if s \<ge> 40 then ''high''
      else ''very_high'')"

definition identifyPatterns :: "analyses \<Rightarrow> string list" where
  "identifyPatterns a =
     (let patterns = [];
          patterns = (if dep_frequency (depositAnalysis a) > 1
                      then patterns @ [''frequent_depositor''] else patterns);
          patterns = (if js_gt (dep_volatility (depositAnalysis a)) 1
                      then patterns @ [''volatile_deposits''] else patterns);
          patterns = (if bet_riskProfile (bettingAnalysis a) = ''aggressive''
                      then patterns @ [''high_risk_bettor''] else patterns);
          patterns = (if bet_winRate (bettingAnalysis a) < 0.3
                      then patterns @ [''frequent_loser''] else patterns);
          patterns = (if js_gt (daysSinceLastActivity (temporalAnalysis a)) 30
                      then patterns @ [''inactive_user''] else patterns)
      in patterns)"

text \<open>
  \<open>analyze\<close> at the instant \<open>now\<close>. The recommendations, free text derived from the
  risk level and the patterns, are left out of the result.
\<close>

definition analyze :: "(instant \<Rightarrow> nat) \<Rightarrow> instant \<Rightarrow> userData \<Rightarrow> behaviorAnalysis" where
  "analyze getHours now u =
     (let a = \<lparr>depositAnalysis = analyzeDeposits (depositHistory u),
               bettingAnalysis = analyzeBetting (betHistory u),
               sessionAnalysis = analyzeSessions getHours (sessionHistory u),
               temporalAnalysis = analyzeTemporalPatterns now u\<rparr>;
          behaviorScore = calculateBehaviorScore a
      in \<lparr>score = behaviorScore,
          riskLevel = determineRiskLevel behaviorScore,
          patterns = identifyPatterns a,
          details = a\<rparr>)"

section \<open>ChestOptimizer\<close>

record chestConfig =
  successRate :: real
  minValue :: real
  maxValue :: real

text \<open>
  \<open>history\<close> is the length of the profile's history when it is an array, \<open>None\<close>
  when the field is absent or has no length.
\<close>

record userProfile =
  behaviorScore :: real
  up_riskLevel :: string
  history :: "nat option"

text \<open>
  The object stored for a tier; \<open>cp_config\<close> is \<open>None\<close> when what the table gave
  for the tier id is not a configuration.
\<close>

record chestPotential =
  cp_potential :: jsnum
  cp_expectedValue :: jsnum
  cp_config :: "chestConfig option"

record chest =
  ch_type :: string
  ch_quantity :: nat
  ch_potential :: jsnum
  ch_expectedValue :: jsnum

record optimization =
  chests :: "chest list"
  opt_expectedValue :: jsnum
  opt_confidence :: real

text \<open>The table of tiers is fixed in the code.\<close>

definition getGamificationConfigs :: "(string \<times> chestConfig) list" where
  "getGamificationConfigs =
     [(''silver'', \<lparr>successRate = 0.7, minValue = 10.0, maxValue = 50.0\<rparr>),
      (''gold'', \<lparr>successRate = 0.5, minValue = 25.0, maxValue = 100.0\<rparr>),
      (''platinum'', \<lparr>successRate = 0.3, minValue = 50.0, maxValue = 200.0\<rparr>)]"

text \<open>
  The local variable \<open>potential\<close> of \<open>calculateChestPotentials\<close> after the two
  adjustments, before the clamp.
\<close>

definition adjustedPotential :: "userProfile \<Rightarrow> chestConfig \<Rightarrow> real" where
  "adjustedPotential profile config =
     (let potential = successRate config;
          potential = (if behaviorScore profile > 80 then potential * 1.2
                       else if behaviorScore profile < 40 then potential * 0.8
                       else potential);
          potential = (if up_riskLevel profile = ''low'' then potential * 1.1
                       else if up_riskLevel profile = ''very_high'' then potential * 0.7
                       else potential)
      in potential)"

text \<open>
  The object that the loop of \<open>calculateChestPotentials\<close> stores for a tier with a
  configuration: the potential is clamped, the expected value is computed from the local
  variable.
\<close>

definition chestPotentialOf :: "userProfile \<Rightarrow> chestConfig \<Rightarrow> chestPotential" where
  "chestPotentialOf profile config =
     (let potential = adjustedPotential profile config
      in \<lparr>cp_potential = Fin (min 1.0 potential),
          cp_expectedValue = Fin ((minValue config + maxValue config) / 2 * potential),
          cp_config = Some config\<rparr>)"

text \<open>
  The object stored for a tier id that names an inherited property: the value passes the
  test \<open>!config\<close>, its \<open>successRate\<close>, \<open>minValue\<close> and \<open>maxValue\<close> are
  \<open>undefined\<close>, and so \<open>Math.min(1.0, potential)\<close> and the expected value are
  \<open>NaN\<close>.
\<close>

definition inheritedPotential :: chestPotential where
  "inheritedPotential = \<lparr>cp_potential = NaN, cp_expectedValue = NaN, cp_config = None\<rparr>"

text \<open>
  \<open>potentials\<close> is an object keyed by tier id, and \<open>addPotential\<close> is the body
  of the loop over the tier ids: a second assignment to a key replaces
  the value where the key stands, a new key goes to the end (\<open>AList.update\<close>), and
  \<open>Object.entries\<close> lists the keys in that order. A tier id for which the table gives
  \<open>undefined\<close> is skipped. The assignment to the key \<open>__proto__\<close> sets the
  prototype of \<open>potentials\<close> and adds no key.
\<close>

definition addPotential ::
  "userProfile \<Rightarrow> (string \<times> chestConfig) list \<Rightarrow> (string \<times> chestPotential) list \<Rightarrow> string
   \<Rightarrow> (string \<times> chestPotential) list"
where
  "addPotential profile configs potentials chestType =
     (case getProperty configs chestType of
        Missing \<Rightarrow> potentials
      | Own config \<Rightarrow> AList.update chestType (chestPotentialOf profile config) potentials
      | Inherited \<Rightarrow>
          if chestType = ''__proto__'' then potentials
          else AList.update chestType inheritedPotential potentials)"

definition calculateChestPotentials ::
  "userProfile \<Rightarrow> string list \<Rightarrow> (string \<times> chestConfig) list \<Rightarrow> (string \<times> chestPotential) list"
where
  "calculateChestPotentials profile availableChests configs =
     foldl (addPotential profile configs) [] availableChests"

text \<open>
  What can stand in \<open>potentials\<close> under a key: the object computed from the
  configuration of the key, or the object without numbers when the key names an inherited
  property.
\<close>

definition potentialFor ::
  "userProfile \<Rightarrow> (string \<times> chestConfig) list \<Rightarrow> string \<times> chestPotential \<Rightarrow> bool" where
  "potentialFor profile configs p =
     (case getProperty configs (fst p) of
        Own config \<Rightarrow> snd p = chestPotentialOf profile config
      | Inherited \<Rightarrow> snd p = inheritedPotential
      | Missing \<Rightarrow> False)"

definition calculateOptimalQuantity :: "chestPotential \<Rightarrow> nat" where
  "calculateOptimalQuantity chestData =
     (if js_gt (cp_potential chestData) 0.8 then 3
      else if js_gt (cp_potential chestData) 0.6 then 2
      else 1)"

fun distribute :: "(string \<times> chestPotential) list \<Rightarrow> chest list" where
  "distribute [] = []"
| "distribute ((chestType, d) # rest) =
     (if js_gt (cp_potential d) 0.3
      then \<lparr>ch_type = chestType, ch_quantity = calculateOptimalQuantity d,
            ch_potential = cp_potential d, ch_expectedValue = cp_expectedValue d\<rparr>
           # distribute rest
      else distribute rest)"

definition optimizeDistribution :: "(string \<times> chestPotential) list \<Rightarrow> chest list" where
  "optimizeDistribution chestPotentials =
     (let sortedChests =
            js_sort (\<lambda>a b. js_sub (cp_expectedValue (snd b)) (cp_expectedValue (snd a)))
              chestPotentials
      in distribute sortedChests)"

definition calculateExpectedValue :: "chest list \<Rightarrow> jsnum" where
  "calculateExpectedValue distribution =
     foldl (\<lambda>total c. js_add total (js_scale (ch_expectedValue c) (real (ch_quantity c))))
       (Fin 0) distribution"

definition calculateConfidence :: "userProfile \<Rightarrow> chest list \<Rightarrow> real" where
  "calculateConfidence profile distribution =
     (let confidence = 0.5;
          confidence = (if (case history profile of None \<Rightarrow> False | Some n \<Rightarrow> n > 10)
                        then confidence + 0.2 else confidence);
          confidence = (if behaviorScore profile > 60 then confidence + 0.2 else confidence);
          confidence = (if length distribution > 0 then confidence + 0.1 else confidence)
      in min 1.0 confidence)"

text \<open>\<open>optimize\<close>; the free-text reasoning is left out of the result.\<close>

definition optimize :: "userProfile \<Rightarrow> string list \<Rightarrow> optimization" where
  "optimize profile availableChests =
     (let configs = getGamificationConfigs;
          chestPotentials = calculateChestPotentials profile availableChests configs;
          optimizedDistribution = optimizeDistribution chestPotentials
      in \<lparr>chests = optimizedDistribution,
          opt_expectedValue = calculateExpectedValue optimizedDistribution,
          opt_confidence = calculateConfidence profile optimizedDistribution\<rparr>)"

section \<open>RewardCalculator\<close>

record reward =
  r_type :: string
  r_value :: real
  r_probability :: real

record userActivity =
  recentActivity :: real
  loyaltyLevel :: string
  weeklyVolume :: real

record rewardResult =
  items :: "reward list"
  totalValue :: real
  bonusMultiplier :: real

definition silverRewards :: "reward list" where
  "silverRewards =
     [\<lparr>r_type = ''coins'', r_value = 10, r_probability = 0.8\<rparr>,
      \<lparr>r_type = ''bonus'', r_value = 5, r_probability = 0.6\<rparr>,
      \<lparr>r_type = ''free_spins'', r_value = 3, r_probability = 0.4\<rparr>]"

definition goldRewards :: "reward list" where
  "goldRewards =
     [\<lparr>r_type = ''coins'', r_value = 25, r_probability = 0.7\<rparr>,
      \<lparr>r_type = ''bonus'', r_value = 15, r_probability = 0.5\<rparr>,
      \<lparr>r_type = ''free_spins'', r_value = 10, r_probability = 0.3\<rparr>,
      \<lparr>r_type = ''cashback'', r_value = 20, r_probability = 0.2\<rparr>]"

definition platinumRewards :: "reward list" where
  "platinumRewards =
     [\<lparr>r_type = ''coins'', r_value = 50, r_probability = 0.6\<rparr>,
      \<lparr>r_type = ''bonus'', r_value = 30, r_probability = 0.4\<rparr>,
      \<lparr>r_type = ''free_spins'', r_value = 20, r_probability = 0.3\<rparr>,
      \<lparr>r_type = ''cashback'', r_value = 50, r_probability = 0.2\<rparr>,
      \<lparr>r_type = ''vip_points'', r_value = 100, r_probability = 0.1\<rparr>]"

definition rewardTables :: "(string \<times> reward list) list" where
  "rewardTables =
     [(''silver'', silverRewards), (''gold'', goldRewards), (''platinum'', platinumRewards)]"

text \<open>
  \<open>Math.random()\<close> is an input of the model: \<open>rand i\<close> is the \<open>i\<close>-th draw of
  the call, one draw for each entry of the table, in order.
\<close>

fun sample :: "(nat \<Rightarrow> real) \<Rightarrow> nat \<Rightarrow> reward list \<Rightarrow> reward list" where
  "sample rand i [] = []"
| "sample rand i (r # rs) =
     (if rand i < r_probability r then r # sample rand (Suc i) rs
      else sample rand (Suc i) rs)"

text \<open>
  An unknown tier falls back to the table of silver. For a tier id that names an inherited
  property the table is a value without a \<open>filter\<close> method, and the call throws.
\<close>

definition getBaseRewards :: "(nat \<Rightarrow> real) \<Rightarrow> string \<Rightarrow> jsError + reward list" where
  "getBaseRewards rand chestType =
     (case getProperty rewardTables chestType of
        Own t \<Rightarrow> Inr (sample rand 0 t)
      | Missing \<Rightarrow> Inr (sample rand 0 silverRewards)
      | Inherited \<Rightarrow> Inl TypeError)"

text \<open>
  The bonus multiplier is a sum of decimal literals, and the specification fixes one of
  its values to an exact decimal, so this function carries the rounding of the machine
  arithmetic as a parameter: \<open>rnd\<close> is applied to every literal and to the result of
  every addition. With the identity it is the arithmetic of the reals used in the rest
  of the model; with \<open>binary64\<close> it is the arithmetic of the language.
\<close>

definition calculateBonusMultiplier :: "(real \<Rightarrow> real) \<Rightarrow> userActivity \<Rightarrow> real" where
  "calculateBonusMultiplier rnd ua =
     (let multiplier = rnd 1.0;
          multiplier = (if recentActivity ua > rnd 0.8
                        then rnd (multiplier + rnd 0.2) else multiplier);
          multiplier = (if loyaltyLevel ua = ''vip'' then rnd (multiplier + rnd 0.3)
                        else if loyaltyLevel ua = ''premium'' then rnd (multiplier + rnd 0.15)
                        else multiplier);
          multiplier = (if weeklyVolume ua > rnd 1000
                        then rnd (multiplier + rnd 0.1) else multiplier)
      in multiplier)"

definition calculate ::
  "(real \<Rightarrow> real) \<Rightarrow> (nat \<Rightarrow> real) \<Rightarrow> userActivity \<Rightarrow> string \<Rightarrow> jsError + rewardResult"
where
  "calculate rnd rand ua chestType =
     (case getBaseRewards rand chestType of
        Inl error \<Rightarrow> Inl error
      | Inr baseRewards \<Rightarrow>
          let m = calculateBonusMultiplier rnd ua;
              finalRewards = map (\<lambda>r. r\<lparr>r_value := rnd (r_value r * m)\<rparr>) baseRewards;
              total = foldl (\<lambda>sum r. rnd (sum + r_value r)) 0 finalRewards
          in Inr \<lparr>items = finalRewards, totalValue = total, bonusMultiplier = m\<rparr>)"

text \<open>
  Rounding to the nearest double, ties to even, for a real in the range of the normal
  doubles: the significand has 53 bits, so the doubles next to \<open>x\<close> are the
  multiples of \<open>2 powi (e - 52)\<close>, where \<open>e\<close> is the exponent of \<open>x\<close>, that
  is \<open>2 powi e \<le> \<bar>x\<bar> < 2 powi (e + 1)\<close>. Overflow and the subnormal numbers are
  outside the model: every number of the bonus multiplier lies between 0.1 and 1500.
\<close>

definition roundHalfEven :: "real \<Rightarrow> int" where
  "roundHalfEven x =
     (let f = \<lfloor>x\<rfloor>
      in if x - of_int f < 1 / 2 then f
         else if x - of_int f > 1 / 2 then f + 1
         else if even f then f else f + 1)"

definition binary64 :: "real \<Rightarrow> real" where
  "binary64 x =
     (if x = 0 then 0
      else
        let e = \<lfloor>log 2 \<bar>x\<bar>\<rfloor>;
            ulp = 2 powi (e - 52)
        in of_int (roundHalfEven (x / ulp)) * ulp)"

text \<open>
  The activity signals \<open>{recentActivity: 0.9, loyaltyLevel: 'vip', weeklyVolume: 1500}\<close>,
  their numbers read with the rounding \<open>rnd\<close>.
\<close>

definition vipActivity :: "(real \<Rightarrow> real) \<Rightarrow> userActivity" where
  "vipActivity rnd =
     \<lparr>recentActivity = rnd 0.9, loyaltyLevel = ''vip'', weeklyVolume = rnd 1500\<rparr>"

section \<open>Configuration lookup (GamificationEngine.getConfig)\<close>

text \<open>
  A value of the language as far as a configuration can hold one: \<open>Obj\<close> is an object
  or an array, given by its JSON text. \<open>truthy\<close> is the test that a condition
  applies to a value.
\<close>

datatype jsval = Undefined | Null | Num real | Str string | Bool bool | Obj string

fun truthy :: "jsval \<Rightarrow> bool" where
  "truthy Undefined = False"
| "truthy Null = False"
| "truthy (Num x) = (x \<noteq> 0)"
| "truthy (Str s) = (s \<noteq> [])"
| "truthy (Bool b) = b"
| "truthy (Obj s) = True"

record cacheEntry =
  ce_value :: jsval
  ce_timestamp :: instant

text \<open>
  The state of the engine that \<open>getConfig\<close> reads and writes: the in-process cache
  \<open>localCache\<close> (a \<open>Map\<close>), the time to live \<open>cacheTtl\<close>, and the client of the
  distributed cache, \<open>None\<close> until \<open>initialize\<close> has connected it, otherwise the
  content of the store it is connected to (keys and serialised values).
\<close>

record engine =
  localCache :: "string \<rightharpoonup> cacheEntry"
  cacheTtl :: int
  redisClient :: "(string \<rightharpoonup> string) option"

text \<open>
  What the configuration service answers to one request. \<open>Rejected\<close> is every way in
  which \<open>axios.get\<close> throws: no connection, the timeout of 5000 ms, a status outside
  2xx (a reply without a body, where reading \<open>success\<close> throws, ends in the same
  \<open>catch\<close>). \<open>Response success data\<close> is a body: \<open>success\<close> says whether its
  field \<open>success\<close> is truthy, and \<open>data\<close> is its field \<open>data\<close>, \<open>None\<close> when
  the field is absent or \<open>null\<close>, otherwise the two fields that the code reads of it,
  each \<open>Undefined\<close> when \<open>data\<close> does not have it. The body is JSON, so
  \<open>get_typed_value\<close> is never a function.
\<close>

record configData =
  cd_value :: jsval
  cd_get_typed_value :: jsval

datatype originReply = Rejected | Response bool "configData option"

text \<open>
  The surroundings of one call: the clock when the in-process entry is checked and when
  an entry is stored, whether the request to the distributed cache fails, the parser of
  serialised values (\<open>None\<close> is the \<open>SyntaxError\<close> of \<open>JSON.parse\<close>), and the answer
  of the configuration service.
\<close>

record env =
  nowCheck :: instant
  nowStore :: instant
  redisFails :: bool
  jsonParse :: "string \<Rightarrow> jsval option"
  origin :: originReply

definition initialEngine :: engine where
  "initialEngine = \<lparr>localCache = Map.empty, cacheTtl = 300000, redisClient = None\<rparr>"

definition store :: "engine \<Rightarrow> string \<Rightarrow> jsval \<Rightarrow> instant \<Rightarrow> engine" where
  "store st key v t =
     st\<lparr>localCache := (localCache st)(key \<mapsto> \<lparr>ce_value = v, ce_timestamp = t\<rparr>)\<rparr>"

text \<open>
  The third step of the body of \<open>try\<close>: the request to the configuration service.
  Reading a field of an absent \<open>data\<close> throws, and so does the call of a
  \<open>get_typed_value\<close> that is truthy, since it is not a function; without it the
  value is \<open>config.value\<close>.
\<close>

definition fetchOrigin :: "env \<Rightarrow> engine \<Rightarrow> string \<Rightarrow> (jsError + jsval) \<times> engine" where
  "fetchOrigin e st key =
     (case origin e of
        Rejected \<Rightarrow> (Inl AxiosError, st)
      | Response success data \<Rightarrow>
          if success then
            (case data of
               None \<Rightarrow> (Inl TypeError, st)
             | Some config \<Rightarrow>
                 if truthy (cd_get_typed_value config) then (Inl TypeError, st)
                 else (Inr (cd_value config), store st key (cd_value config) (nowStore e)))
          else (Inr Null, st))"

text \<open>The second step: the distributed cache, when there is a client.\<close>

definition fetchRedis :: "env \<Rightarrow> engine \<Rightarrow> string \<Rightarrow> (jsError + jsval) \<times> engine" where
  "fetchRedis e st key =
     (case redisClient st of
        None \<Rightarrow> fetchOrigin e st key
      | Some content \<Rightarrow>
          if redisFails e then (Inl RedisError, st)
          else
            (case content (''config_cache:'' @ key) of
               None \<Rightarrow> fetchOrigin e st key
             | Some redisValue \<Rightarrow>
                 if redisValue = [] then fetchOrigin e st key
                 else
                   (case jsonParse e redisValue of
                      None \<Rightarrow> (Inl SyntaxError, st)
                    | Some v \<Rightarrow> (Inr v, store st key v (nowStore e)))))"

text \<open>The body of \<open>try\<close>: \<open>Inl\<close> is an exception thrown inside it.\<close>

definition getConfigTry :: "env \<Rightarrow> engine \<Rightarrow> string \<Rightarrow> (jsError + jsval) \<times> engine" where
  "getConfigTry e st key =
     (case localCache st key of
        None \<Rightarrow> fetchRedis e st key
      | Some cached \<Rightarrow>
          if nowCheck e - ce_timestamp cached < cacheTtl st then (Inr (ce_value cached), st)
          else fetchRedis e st key)"

text \<open>
  \<open>getConfig\<close>: the body with its \<open>catch\<close>, which logs the error and returns
  \<open>null\<close>. \<open>Inl\<close> in the result would be an error that reaches the caller.
\<close>

definition getConfig :: "env \<Rightarrow> engine \<Rightarrow> string \<Rightarrow> (jsError + jsval) \<times> engine" where
  "getConfig e st key =
     (case getConfigTry e st key of
        (Inl error, st') \<Rightarrow> (Inr Null, st')
      | (Inr v, st') \<Rightarrow> (Inr v, st'))"

text \<open>
  The two misses that lead \<open>getConfig\<close> to the configuration service: the in-process
  cache has no entry for the key or one that has expired, and the distributed cache has
  no client, or answers with nothing (or with the empty string) for the prefixed key.
  \<open>redisLookup\<close> is what the distributed cache holds for a key.
\<close>

definition localMiss :: "env \<Rightarrow> engine \<Rightarrow> string \<Rightarrow> bool" where
  "localMiss e st key =
     (case localCache st key of
        None \<Rightarrow> True
      | Some cached \<Rightarrow> \<not> nowCheck e - ce_timestamp cached < cacheTtl st)"

definition redisMiss :: "env \<Rightarrow> engine \<Rightarrow> string \<Rightarrow> bool" where
  "redisMiss e st key =
     (case redisClient st of
        None \<Rightarrow> True
      | Some content \<Rightarrow>
          \<not> redisFails e \<and>
          (case content (''config_cache:'' @ key) of
             None \<Rightarrow> True
           | Some redisValue \<Rightarrow> redisValue = []))"

definition redisLookup :: "engine \<Rightarrow> string \<Rightarrow> string option" where
  "redisLookup st key =
     (case redisClient st of
        None \<Rightarrow> None
      | Some content \<Rightarrow> content (''config_cache:'' @ key))"

section \<open>Example inputs\<close>

text \<open>
  The evaluation instant 2025-06-15T10:00:00Z, a user without any recorded activity who
  registered on 2025-01-01 (the last activity is the parameter), and the first scenario
  of the service's test suite: three deposits, three bets of which two are won, two
  sessions, registration on 2025-01-01 and last activity on 2025-06-14T22:00:00Z.
\<close>

definition exampleNow :: instant where
  "exampleNow = 1749981600000"

definition emptyUser :: "instant option \<Rightarrow> userData" where
  "emptyUser l =
     \<lparr>depositHistory = [], betHistory = [], sessionHistory = [],
      registrationDate = Some 1735689600000, lastActivity = l\<rparr>"


text \<open>
  Six sessions that start, in UTC, at the hours 20, 21, 20, 9, 9 and 3.
\<close>

definition exampleSessions :: "session list" where
  "exampleSessions =
     [\<lparr>startTime = 1748808000000, duration = 120\<rparr>,
      \<lparr>startTime = 1748898000000, duration = 90\<rparr>,
      \<lparr>startTime = 1748980800000, duration = 30\<rparr>,
      \<lparr>startTime = 1749027600000, duration = 45\<rparr>,
      \<lparr>startTime = 1749114000000, duration = 60\<rparr>,
      \<lparr>startTime = 1749178800000, duration = 15\<rparr>]"

text \<open>
  An engine whose distributed cache is connected and empty, two \<open>data\<close> objects of
  the configuration service (\<open>{value: 0.7}\<close> and \<open>{value: 'x', get_typed_value: 1}\<close>),
  and the surroundings of a call at the example instant in which the distributed cache
  answers and the configuration service gives the reply \<open>r\<close>.
\<close>

definition connectedEngine :: engine where
  "connectedEngine = initialEngine\<lparr>redisClient := Some Map.empty\<rparr>"

definition silverRate :: configData where
  "silverRate = \<lparr>cd_value = Num 0.7, cd_get_typed_value = Undefined\<rparr>"

definition typedRate :: configData where
  "typedRate = \<lparr>cd_value = Str ''x'', cd_get_typed_value = Num 1\<rparr>"

definition exampleEnv :: "originReply \<Rightarrow> env" where
  "exampleEnv r =
     \<lparr>nowCheck = exampleNow, nowStore = exampleNow, redisFails = False,
      jsonParse = (\<lambda>s. Some (Str s)), origin = r\<rparr>"

text \<open>
  A profile with the highest score and the lowest risk, a profile in the middle, the three
  tiers that the service offers by default, and a request that names an inherited
  property between two tiers.
\<close>

definition bestProfile :: userProfile where
  "bestProfile = \<lparr>behaviorScore = 100, up_riskLevel = ''low'', history = None\<rparr>"

definition midProfile :: userProfile where
  "midProfile = \<lparr>behaviorScore = 50, up_riskLevel = ''high'', history = None\<rparr>"

definition allChests :: "string list" where
  "allChests = [''silver'', ''gold'', ''platinum'']"

definition oddChests :: "string list" where
  "oddChests = [''silver'', ''toString'', ''gold'']"

section \<open>Properties of the behavior score\<close>

subsection \<open>The score as a sum, the patterns as a concatenation\<close>

lemma if_add: "(if c then (s::real) + k else s) = s + (if c then k else 0)"
  by simp

lemma calculateBehaviorScore_sum:
  "calculateBehaviorScore a =
     min 100 (max 0 (50
       + (if dep_frequency (depositAnalysis a) > 0.1 then 10 else 0)
       + (if dep_averageAmount (depositAnalysis a) > 100 then 10 else 0)
       + (if js_lt (dep_volatility (depositAnalysis a)) 0.5 then 5 else 0)
       + (if bet_winRate (bettingAnalysis a) > 0.4 then 10 else 0)
       + (if bet_frequency (bettingAnalysis a) > 1 then 5 else 0)
       + (if bet_riskProfile (bettingAnalysis a) = ''conservative'' then 10 else 0)
       + (if ses_frequency (sessionAnalysis a) > 0.5 then 5 else 0)
       + (if ses_averageDuration (sessionAnalysis a) > 30 then 5 else 0)
       + (if activityLevel (temporalAnalysis a) = ''high'' then 10 else 0)
       + (if js_lt (daysSinceLastActivity (temporalAnalysis a)) 7 then 5 else 0)))"
  by (simp only: calculateBehaviorScore_def Let_def if_add)

lemma if_app: "(if c then p @ [x] else p) = p @ (if c then [x] else [])"
  by simp

lemma identifyPatterns_app:
  "identifyPatterns a =
     (if dep_frequency (depositAnalysis a) > 1 then [''frequent_depositor''] else [])
     @ (if js_gt (dep_volatility (depositAnalysis a)) 1 then [''volatile_deposits''] else [])
     @ (if bet_riskProfile (bettingAnalysis a) = ''aggressive'' then [''high_risk_bettor''] else [])
     @ (if bet_winRate (bettingAnalysis a) < 0.3 then [''frequent_loser''] else [])
     @ (if js_gt (daysSinceLastActivity (temporalAnalysis a)) 30 then [''inactive_user''] else [])"
  by (simp only: identifyPatterns_def Let_def if_app append_Nil append_assoc)

lemma analyze_fields:
  "score (analyze g now u) = calculateBehaviorScore (details (analyze g now u))"
  "riskLevel (analyze g now u) = determineRiskLevel (score (analyze g now u))"
  "patterns (analyze g now u) = identifyPatterns (details (analyze g now u))"
  "depositAnalysis (details (analyze g now u)) = analyzeDeposits (depositHistory u)"
  "bettingAnalysis (details (analyze g now u)) = analyzeBetting (betHistory u)"
  "sessionAnalysis (details (analyze g now u)) = analyzeSessions g (sessionHistory u)"
  "temporalAnalysis (details (analyze g now u)) = analyzeTemporalPatterns now u"
  by (simp_all only: analyze_def Let_def behaviorAnalysis.simps analyses.simps)

lemma temporal_fields:
  "daysSinceLastActivity (analyzeTemporalPatterns now u) = daysSince now (lastActivity u)"
  "activityLevel (analyzeTemporalPatterns now u) =
     calculateActivityLevel (daysSince now (registrationDate u)) (daysSince now (lastActivity u))"
  by (simp_all add: analyzeTemporalPatterns_def Let_def)

subsection \<open>Score range\<close>

text \<open>
  C5. For every user activity history and every evaluation instant, the score returned by
  \<open>analyze\<close> lies between 0 and 100.
\<close>

theorem analyze_score_range:
  "0 \<le> score (analyze getHours now u) \<and> score (analyze getHours now u) \<le> 100"
proof -
  have clamp: "0 \<le> min 100 (max 0 s) \<and> min 100 (max 0 s) \<le> 100" for s :: real
    by simp
  obtain s where "calculateBehaviorScore (details (analyze getHours now u)) = min 100 (max 0 s)"
    using calculateBehaviorScore_sum by blast
  then show ?thesis
    using clamp by (simp only: analyze_fields(1))
qed

subsection \<open>A history without activity\<close>

lemma analyzeDeposits_Nil:
  "analyzeDeposits [] =
     \<lparr>dep_frequency = 0, dep_averageAmount = 0, dep_trend = ''none'',
      dep_volatility = Fin 0, dep_totalDeposits = None, dep_totalAmount = None\<rparr>"
  by (simp add: analyzeDeposits_def)

lemma analyzeBetting_Nil:
  "analyzeBetting [] =
     \<lparr>bet_frequency = 0, bet_averageAmount = 0, bet_winRate = 0,
      bet_riskProfile = ''unknown'', bet_totalBets = None, bet_totalAmount = None\<rparr>"
  by (simp add: analyzeBetting_def)

lemma analyzeSessions_Nil:
  "analyzeSessions g [] =
     \<lparr>ses_averageDuration = 0, ses_frequency = 0, ses_peakHours = [],
      ses_totalSessions = None\<rparr>"
  by (simp add: analyzeSessions_def)

lemma empty_score:
  assumes "depositHistory u = []" "betHistory u = []" "sessionHistory u = []"
  shows "score (analyze g now u) =
          (if js_lt (daysSince now (lastActivity u)) 1 then 60
           else if js_lt (daysSince now (lastActivity u)) 7 then 70 else 55)"
proof -
  have "js_lt d 1 \<Longrightarrow> js_lt d 7" for d
    by (cases d) simp_all
  then show ?thesis
    by (simp add: analyze_fields calculateBehaviorScore_sum assms analyzeDeposits_Nil
        analyzeBetting_Nil analyzeSessions_Nil temporal_fields calculateActivityLevel_def)
qed

lemma empty_riskLevel:
  assumes "depositHistory u = []" "betHistory u = []" "sessionHistory u = []"
  shows "riskLevel (analyze g now u) =
          (if js_lt (daysSince now (lastActivity u)) 7 then ''medium'' else ''high'')"
proof -
  have "js_lt d 1 \<Longrightarrow> js_lt d 7" for d
    by (cases d) simp_all
  then show ?thesis
    by (simp add: analyze_fields(2) empty_score[OF assms] determineRiskLevel_def)
qed

lemma empty_patterns:
  assumes "depositHistory u = []" "betHistory u = []" "sessionHistory u = []"
  shows "patterns (analyze g now u) =
          (if js_gt (daysSince now (lastActivity u)) 30
           then [''frequent_loser'', ''inactive_user''] else [''frequent_loser''])"
  by (simp add: analyze_fields identifyPatterns_app assms analyzeDeposits_Nil
      analyzeBetting_Nil analyzeSessions_Nil temporal_fields)

lemma exampleDays:
  "daysSince exampleNow (Some 1749938400000) = Fin (1 / 2)"
  "daysSince exampleNow (Some 1749808800000) = Fin 2"
  "daysSince exampleNow (Some 1749117600000) = Fin 10"
  by (simp_all add: exampleNow_def daysSince_def msPerDay_def)

text \<open>
  C1, as the specification states it, fails: a user without deposits, bets and sessions
  whose last activity is ten days old gets the score 55, not 50, the risk level
  \<open>high\<close>, not \<open>medium\<close>, and the pattern \<open>frequent_loser\<close>.
\<close>

theorem empty_history_not_base_score:
  "\<not> (score (analyze utcHours exampleNow (emptyUser (Some 1749117600000))) = 50
      \<and> riskLevel (analyze utcHours exampleNow (emptyUser (Some 1749117600000))) = ''medium''
      \<and> patterns (analyze utcHours exampleNow (emptyUser (Some 1749117600000))) = [])"
  by (simp add: empty_score emptyUser_def exampleDays)

text \<open>
  C1, amended. For every user activity history with no deposits, no bets and no sessions,
  the volatility 0 of the empty deposit history is below 0.5 and the win rate 0 of the
  empty bet history is below 0.3, so the score is 55 plus the bonuses of the last
  activity: 60 when it is less than one day old, 70 when it is between one and seven
  days old, 55 otherwise (also when the last activity is missing). The risk level is
  \<open>medium\<close> in the first two cases and \<open>high\<close> in the third, and the patterns are
  \<open>frequent_loser\<close>, followed by \<open>inactive_user\<close> when the last activity is more
  than thirty days old.
\<close>

theorem empty_history_analysis:
  assumes "depositHistory u = []" and "betHistory u = []" and "sessionHistory u = []"
  shows "score (analyze getHours now u) =
          (if js_lt (daysSince now (lastActivity u)) 1 then 60
           else if js_lt (daysSince now (lastActivity u)) 7 then 70 else 55)
     \<and> riskLevel (analyze getHours now u) =
          (if js_lt (daysSince now (lastActivity u)) 7 then ''medium'' else ''high'')
     \<and> patterns (analyze getHours now u) =
          (if js_gt (daysSince now (lastActivity u)) 30
           then [''frequent_loser'', ''inactive_user''] else [''frequent_loser''])"
  using empty_score[OF assms] empty_riskLevel[OF assms] empty_patterns[OF assms]
  by simp

theorem empty_history_analysis_witness:
  "depositHistory (emptyUser (Some 1749117600000)) = []
   \<and> betHistory (emptyUser (Some 1749117600000)) = []
   \<and> sessionHistory (emptyUser (Some 1749117600000)) = []
   \<and> score (analyze utcHours exampleNow (emptyUser (Some 1749117600000))) = 55
   \<and> riskLevel (analyze utcHours exampleNow (emptyUser (Some 1749117600000))) = ''high''
   \<and> patterns (analyze utcHours exampleNow (emptyUser (Some 1749117600000)))
       = [''frequent_loser'']"
proof -
  have h: "depositHistory (emptyUser (Some 1749117600000)) = []"
    "betHistory (emptyUser (Some 1749117600000)) = []"
    "sessionHistory (emptyUser (Some 1749117600000)) = []"
    by (simp_all add: emptyUser_def)
  have l: "lastActivity (emptyUser (Some 1749117600000)) = Some 1749117600000"
    by (simp add: emptyUser_def)
  show ?thesis
    using h empty_history_analysis[OF h, of utcHours exampleNow]
    by (simp add: l exampleDays)
qed

subsection \<open>Recency of the last activity\<close>

text \<open>
  C10. The score is not monotone in the recency of the last activity: there are two
  histories that differ only in the last activity, one less than a day old (activity
  level \<open>very_high\<close>) and one between one and seven days old (activity level
  \<open>high\<close>), where the user who was active more recently scores exactly 10 points
  less, since the bonus of 10 is given for the level \<open>high\<close> only.
\<close>

theorem score_not_monotone_in_recency:
  "\<exists>u l now g.
      js_lt (daysSinceLastActivity (temporalAnalysis (details (analyze g now u)))) 1
    \<and> activityLevel (temporalAnalysis (details (analyze g now u))) = ''very_high''
    \<and> \<not> js_lt (daysSinceLastActivity
            (temporalAnalysis (details (analyze g now (u\<lparr>lastActivity := l\<rparr>))))) 1
    \<and> js_lt (daysSinceLastActivity
            (temporalAnalysis (details (analyze g now (u\<lparr>lastActivity := l\<rparr>))))) 7
    \<and> activityLevel (temporalAnalysis (details (analyze g now (u\<lparr>lastActivity := l\<rparr>))))
        = ''high''
    \<and> score (analyze g now u) + 10 = score (analyze g now (u\<lparr>lastActivity := l\<rparr>))"
proof -
  let ?u = "emptyUser (Some 1749938400000)"
  let ?l = "Some (1749808800000::int)"
  have s1: "score (analyze utcHours exampleNow ?u) = 60"
    by (simp add: empty_score exampleDays emptyUser_def)
  have s2: "score (analyze utcHours exampleNow (?u\<lparr>lastActivity := ?l\<rparr>)) = 70"
    by (simp add: empty_score exampleDays emptyUser_def)
  have "js_lt (daysSinceLastActivity
            (temporalAnalysis (details (analyze utcHours exampleNow ?u)))) 1
    \<and> activityLevel (temporalAnalysis (details (analyze utcHours exampleNow ?u))) = ''very_high''
    \<and> \<not> js_lt (daysSinceLastActivity (temporalAnalysis
            (details (analyze utcHours exampleNow (?u\<lparr>lastActivity := ?l\<rparr>))))) 1
    \<and> js_lt (daysSinceLastActivity (temporalAnalysis
            (details (analyze utcHours exampleNow (?u\<lparr>lastActivity := ?l\<rparr>))))) 7
    \<and> activityLevel (temporalAnalysis
            (details (analyze utcHours exampleNow (?u\<lparr>lastActivity := ?l\<rparr>)))) = ''high''
    \<and> score (analyze utcHours exampleNow ?u) + 10
        = score (analyze utcHours exampleNow (?u\<lparr>lastActivity := ?l\<rparr>))"
    unfolding s1 s2
    by (simp add: analyze_fields temporal_fields exampleDays calculateActivityLevel_def
        emptyUser_def)
  then show ?thesis by blast
qed

subsection \<open>The end-to-end scenario\<close>








section \<open>Properties of the configuration lookup\<close>

lemma getConfig_not_Inl: "fst (getConfig e st key) \<noteq> Inl err"
  by (simp add: getConfig_def split: prod.split sum.split)

lemma miss_to_origin:
  "localMiss e st key \<Longrightarrow> redisMiss e st key \<Longrightarrow>
   getConfigTry e st key = fetchOrigin e st key"
  by (auto simp: localMiss_def redisMiss_def getConfigTry_def fetchRedis_def
      split: option.splits)

lemma example_misses:
  "localMiss (exampleEnv r) connectedEngine key"
  "redisMiss (exampleEnv r) connectedEngine key"
  "localMiss (exampleEnv r) initialEngine key"
  "redisMiss (exampleEnv r) initialEngine key"
  by (simp_all add: localMiss_def redisMiss_def connectedEngine_def initialEngine_def
      exampleEnv_def)

text \<open>
  C9. For every key, state and surroundings, \<open>getConfig\<close> gives no error to its caller;
  and when the lookup reaches the configuration service (both caches miss) and the
  service cannot be reached, times out, or answers without success, the call returns
  \<open>null\<close> and leaves the state as it was.
\<close>

theorem getConfig_never_raises:
  "fst (getConfig e st key) \<noteq> Inl err \<and>
   (localMiss e st key \<and> redisMiss e st key \<and>
      (origin e = Rejected \<or> (\<exists>d. origin e = Response False d))
    \<longrightarrow> getConfig e st key = (Inr Null, st))"
proof -
  have a: "fst (getConfig e st key) \<noteq> Inl err"
    by (rule getConfig_not_Inl)
  have b: "localMiss e st key \<and> redisMiss e st key \<and>
      (origin e = Rejected \<or> (\<exists>d. origin e = Response False d))
    \<longrightarrow> getConfig e st key = (Inr Null, st)"
    by (auto simp: getConfig_def miss_to_origin fetchOrigin_def)
  show ?thesis using a b by blast
qed

theorem getConfig_never_raises_witness:
  "localMiss (exampleEnv Rejected) connectedEngine ''chest.silver''
   \<and> redisMiss (exampleEnv Rejected) connectedEngine ''chest.silver''
   \<and> origin (exampleEnv Rejected) = Rejected
   \<and> getConfig (exampleEnv Rejected) connectedEngine ''chest.silver''
       = (Inr Null, connectedEngine)"
  using getConfig_never_raises[of "exampleEnv Rejected" connectedEngine "''chest.silver''"]
    example_misses(1,2)[of Rejected "''chest.silver''"]
  by (simp add: exampleEnv_def)

text \<open>
  C3, as the specification states it, fails: with both caches missing and a successful
  answer of the configuration service, the call returns the value and the distributed
  cache still holds nothing for the key.
\<close>

theorem getConfig_leaves_redis_unwritten:
  "localMiss (exampleEnv (Response True (Some silverRate))) connectedEngine ''chest.silver''
   \<and> redisMiss (exampleEnv (Response True (Some silverRate))) connectedEngine ''chest.silver''
   \<and> fst (getConfig (exampleEnv (Response True (Some silverRate))) connectedEngine
         ''chest.silver'') = Inr (Num 0.7)
   \<and> redisLookup (snd (getConfig (exampleEnv (Response True (Some silverRate)))
         connectedEngine ''chest.silver'')) ''chest.silver'' = None"
  using example_misses(1,2)[of "Response True (Some silverRate)" "''chest.silver''"]
  by (simp add: getConfig_def miss_to_origin fetchOrigin_def store_def redisLookup_def
      connectedEngine_def exampleEnv_def silverRate_def)

text \<open>The distributed cache is the same after every call.\<close>

lemma getConfig_redis_unchanged: "redisClient (snd (getConfig e st key)) = redisClient st"
  by (simp add: getConfig_def getConfigTry_def fetchRedis_def fetchOrigin_def store_def
      split: prod.split sum.split option.split originReply.split)

text \<open>
  A successful answer whose \<open>data\<close> has a truthy \<open>get_typed_value\<close> gives
  \<open>null\<close> and stores nothing: the call of that field throws inside \<open>try\<close>.
\<close>

lemma getConfig_typed_value:
  "getConfig (exampleEnv (Response True (Some typedRate))) connectedEngine ''chest.silver''
   = (Inr Null, connectedEngine)"
  using example_misses(1,2)[of "Response True (Some typedRate)" "''chest.silver''"]
  by (simp add: getConfig_def miss_to_origin fetchOrigin_def exampleEnv_def typedRate_def)

text \<open>
  C3, amended. For every key, when a call misses both caches and the configuration
  service answers with success and a \<open>data\<close> object that has no truthy
  \<open>get_typed_value\<close>, \<open>getConfig\<close> returns the \<open>value\<close> of \<open>data\<close> after
  writing it, with the time of the write, into the in-process cache only: the entry of
  the key is the one change of the state, and the distributed cache is left as it was.
\<close>

theorem getConfig_origin_success:
  assumes "localMiss e st key" and "redisMiss e st key"
    and "origin e = Response True (Some config)"
    and "\<not> truthy (cd_get_typed_value config)"
  shows "getConfig e st key =
      (Inr (cd_value config),
       st\<lparr>localCache :=
            (localCache st)(key \<mapsto>
               \<lparr>ce_value = cd_value config, ce_timestamp = nowStore e\<rparr>)\<rparr>)
    \<and> redisClient (snd (getConfig e st key)) = redisClient st"
  using assms by (simp add: getConfig_def miss_to_origin fetchOrigin_def store_def)

theorem getConfig_origin_success_witness:
  "localMiss (exampleEnv (Response True (Some silverRate))) connectedEngine ''chest.silver''
   \<and> redisMiss (exampleEnv (Response True (Some silverRate))) connectedEngine ''chest.silver''
   \<and> origin (exampleEnv (Response True (Some silverRate))) = Response True (Some silverRate)
   \<and> \<not> truthy (cd_get_typed_value silverRate)
   \<and> fst (getConfig (exampleEnv (Response True (Some silverRate))) connectedEngine
         ''chest.silver'') = Inr (Num 0.7)
   \<and> localCache (snd (getConfig (exampleEnv (Response True (Some silverRate)))
         connectedEngine ''chest.silver'')) ''chest.silver''
       = Some \<lparr>ce_value = Num 0.7, ce_timestamp = exampleNow\<rparr>
   \<and> redisClient (snd (getConfig (exampleEnv (Response True (Some silverRate)))
         connectedEngine ''chest.silver'')) = redisClient connectedEngine"
proof -
  have h: "localMiss (exampleEnv (Response True (Some silverRate))) connectedEngine
             ''chest.silver''"
    "redisMiss (exampleEnv (Response True (Some silverRate))) connectedEngine ''chest.silver''"
    "origin (exampleEnv (Response True (Some silverRate))) = Response True (Some silverRate)"
    "\<not> truthy (cd_get_typed_value silverRate)"
    by (simp_all add: example_misses) (simp_all add: exampleEnv_def silverRate_def)
  show ?thesis
    using h getConfig_origin_success[OF h]
    by (simp add: exampleEnv_def silverRate_def)
qed

section \<open>Properties of the reward calculation\<close>

subsection \<open>Evaluating the rounding\<close>

lemma binary64_eval:
  assumes "2 powi e \<le> x" and "x < 2 powi (e + 1)"
  shows "binary64 x = of_int (roundHalfEven (x / 2 powi (e - 52))) * 2 powi (e - 52)"
proof -
  have "(0::real) < 2 powi e" by simp
  then have pos: "0 < x" using assms(1) by linarith
  have "2 powr (of_int e) \<le> x \<and> x < 2 powr (of_int e + 1)"
    using assms powr_real_of_int'[of 2 e] powr_real_of_int'[of 2 "e + 1"] by simp
  then have "\<lfloor>log 2 x\<rfloor> = e"
    using pos floor_log_eq_powr_iff[of x 2 e] by simp
  then have e: "\<lfloor>log 2 \<bar>x\<bar>\<rfloor> = e" using pos by simp
  have "x \<noteq> 0" using pos by simp
  then show ?thesis
    by (simp only: binary64_def e Let_def if_False)
qed

lemma binary64_frac:
  assumes "1 \<le> x * 2 ^ k" and "x * 2 ^ k < 2"
  shows "binary64 x = of_int (roundHalfEven (x * 2 ^ (k + 52))) / 2 ^ (k + 52)"
proof -
  have a: "2 powi (- int k) \<le> x"
    using assms(1) by (simp add: power_int_minus divide_simps)
  have eq: "(2::real) powi (- int k + 1) = 2 / 2 ^ k"
  proof -
    have "(2::real) powi (- int k + 1) = 2 powi (- int k) * 2 powi 1"
      by (rule power_int_add) simp
    also have "\<dots> = 2 / 2 ^ k"
      by (simp add: power_int_minus divide_simps)
    finally show ?thesis .
  qed
  have "x < 2 / 2 ^ k"
    using assms(2) by (simp add: pos_less_divide_eq)
  then have b: "x < 2 powi (- int k + 1)"
    by (simp only: eq)
  have u: "(2::real) powi (- int k - 52) = 1 / 2 ^ (k + 52)"
  proof -
    have "- int k - 52 = - int (k + 52)" by simp
    then show ?thesis by (simp only: power_int_minus power_int_of_nat) (simp add: divide_simps)
  qed
  show ?thesis
    by (simp add: binary64_eval[OF a b] u)
qed

lemma binary64_int:
  assumes "2 ^ k \<le> x" and "x < 2 * 2 ^ k" and "k \<le> 52"
  shows "binary64 x = of_int (roundHalfEven (x * 2 ^ (52 - k))) / 2 ^ (52 - k)"
proof -
  have a: "2 powi (int k) \<le> x"
    using assms(1) by simp
  have b: "x < 2 powi (int k + 1)"
    using assms(2) by (simp add: power_int_add)
  have u: "(2::real) powi (int k - 52) = 1 / 2 ^ (52 - k)"
  proof -
    have "int k - 52 = - int (52 - k)" using assms(3) by simp
    then show ?thesis by (simp only: power_int_minus power_int_of_nat) (simp add: divide_simps)
  qed
  show ?thesis
    by (simp add: binary64_eval[OF a b] u)
qed

lemma b_02: "binary64 0.2 = 3602879701896397 / 2 ^ 54"
  by (subst binary64_frac[of _ 3]) (simp_all add: roundHalfEven_def Let_def)

lemma b_1: "binary64 1.0 = 1"
  by (subst binary64_int[of 0]) (simp_all add: roundHalfEven_def Let_def)

lemma b_1000: "binary64 1000 = 1000"
  by (subst binary64_int[of 9]) (simp_all add: roundHalfEven_def Let_def)


lemma b_08: "binary64 0.8 = 3602879701896397 / 2 ^ 52"
  by (subst binary64_frac[of _ 1]) (simp_all add: roundHalfEven_def Let_def)

lemma b_09: "binary64 0.9 = 8106479329266893 / 2 ^ 53"
  by (subst binary64_frac[of _ 1]) (simp_all add: roundHalfEven_def Let_def)

lemma b_03: "binary64 0.3 = 5404319552844595 / 2 ^ 54"
  by (subst binary64_frac[of _ 2]) (simp_all add: roundHalfEven_def Let_def)

lemma b_01: "binary64 0.1 = 3602879701896397 / 2 ^ 55"
  by (subst binary64_frac[of _ 4]) (simp_all add: roundHalfEven_def Let_def)

lemma b_1500: "binary64 1500 = 1500"
  by (subst binary64_int[of 10]) (simp_all add: roundHalfEven_def Let_def)

lemma b_16: "binary64 1.6 = 3602879701896397 / 2 ^ 51"
  by (subst binary64_int[of 0]) (simp_all add: roundHalfEven_def Let_def)

lemma m1: "binary64 (1 + 3602879701896397 / 2 ^ 54) = 5404319552844595 / 2 ^ 52"
  by (subst binary64_int[of 0]) (simp_all add: roundHalfEven_def Let_def)

lemma m2: "binary64 (5404319552844595 / 2 ^ 52 + 5404319552844595 / 2 ^ 54) = 3 / 2"
  by (subst binary64_int[of 0]) (simp_all add: roundHalfEven_def Let_def)

lemma m3: "binary64 (3 / 2 + 3602879701896397 / 2 ^ 55) = 3602879701896397 / 2 ^ 51"
  by (subst binary64_int[of 0]) (simp_all add: roundHalfEven_def Let_def)

subsection \<open>The bonus multiplier of a VIP\<close>

text \<open>
  C8. For the activity signals \<open>{recentActivity: 0.9, loyaltyLevel: 'vip',
  weeklyVolume: 1500}\<close>, whatever the tier and the random draws, the bonus multiplier
  in the result of \<open>calculate\<close> is exactly 1.6: in the arithmetic of the reals it is
  1 + 0.2 + 0.3 + 0.1, and in the arithmetic of doubles, where every literal and every
  sum is rounded, it is the double that the literal \<open>1.6\<close> denotes. (The call gives
  no result, but a \<open>TypeError\<close>, when the tier id names an inherited property.)
\<close>

theorem vip_bonusMultiplier:
  "(case calculate (\<lambda>x. x) rand (vipActivity (\<lambda>x. x)) chestType of
      Inr result \<Rightarrow> bonusMultiplier result = 1.6
    | Inl error \<Rightarrow> chestType \<in> set inheritedNames)
   \<and> (case calculate binary64 rand (vipActivity binary64) chestType of
      Inr result \<Rightarrow> bonusMultiplier result = binary64 1.6
    | Inl error \<Rightarrow> chestType \<in> set inheritedNames)
   \<and> calculateBonusMultiplier (\<lambda>x. x) (vipActivity (\<lambda>x. x)) = 1.6
   \<and> calculateBonusMultiplier binary64 (vipActivity binary64) = binary64 1.6"
proof -
  have a: "calculateBonusMultiplier (\<lambda>x. x) (vipActivity (\<lambda>x. x)) = 1.6"
    by (simp add: calculateBonusMultiplier_def vipActivity_def)
  have c1: "binary64 0.8 < binary64 0.9"
    unfolding b_08 b_09 by simp
  have c3: "binary64 1000 < binary64 1500"
    unfolding b_1000 b_1500 by simp
  have b: "calculateBonusMultiplier binary64 (vipActivity binary64) = binary64 1.6"
    unfolding calculateBonusMultiplier_def vipActivity_def Let_def
    by (simp only: userActivity.select_convs c1 c3 if_True refl
        b_1 b_02 m1 b_03 m2 b_01 m3 b_16)
  have f: "(case calculate rnd rand ua chestType of
              Inr result \<Rightarrow> bonusMultiplier result = calculateBonusMultiplier rnd ua
            | Inl error \<Rightarrow> chestType \<in> set inheritedNames)"
    for rnd ua
    by (simp add: calculate_def getBaseRewards_def getProperty_def Let_def
        split: option.split)
  show ?thesis
    using a b f[of "\<lambda>x. x" "vipActivity (\<lambda>x. x)"] f[of binary64 "vipActivity binary64"]
    by (simp split: sum.splits)
qed

section \<open>Properties of the sort\<close>

lemma js_sort_Nil [simp]: "js_sort cmp [] = []"
  by (simp add: js_sort_def)

lemma js_sort_single [simp]: "js_sort cmp [x] = [x]"
  by (simp add: js_sort_def)

lemma binarySearch_done:
  "\<not> left < right \<Longrightarrow> binarySearch cmp pivot xs left right = left"
  by (subst binarySearch.simps) simp

lemma binarySearch_step:
  "left < right \<Longrightarrow> mid = left + (right - left) div 2 \<Longrightarrow>
   binarySearch cmp pivot xs left right =
     (if negative (cmp pivot (xs ! mid)) then binarySearch cmp pivot xs left mid
      else binarySearch cmp pivot xs (mid + 1) right)"
  by (subst binarySearch.simps) (simp add: Let_def)

lemma binarySearch_bounds:
  "left \<le> right \<Longrightarrow>
   left \<le> binarySearch cmp pivot xs left right \<and> binarySearch cmp pivot xs left right \<le> right"
proof (induction cmp pivot xs left right rule: binarySearch.induct)
  case (1 cmp pivot xs left right)
  show ?case
  proof (cases "left < right")
    case False
    then show ?thesis using "1.prems" by (simp add: binarySearch_done)
  next
    case True
    define mid where "mid = left + (right - left) div 2"
    have m: "left \<le> mid" "mid < right" using True by (simp_all add: mid_def)
    note step = binarySearch_step[OF True mid_def, of cmp pivot xs]
    show ?thesis
    proof (cases "negative (cmp pivot (xs ! mid))")
      case n: True
      have "left \<le> binarySearch cmp pivot xs left mid \<and> binarySearch cmp pivot xs left mid \<le> mid"
        using "1.IH"(1)[OF True mid_def n] m by simp
      then show ?thesis
        using n m by (simp add: step)
    next
      case n: False
      have "mid + 1 \<le> binarySearch cmp pivot xs (mid + 1) right
          \<and> binarySearch cmp pivot xs (mid + 1) right \<le> right"
        using "1.IH"(2)[OF True mid_def n] m by simp
      then show ?thesis
        using n m by (simp add: step)
    qed
  qed
qed

lemma binarySearch_le_length: "binarySearch cmp pivot xs 0 (length xs) \<le> length xs"
  using binarySearch_bounds[of 0 "length xs" cmp pivot xs] by simp

lemma set_binaryInsert: "set (binaryInsert cmp xs pivot) = insert pivot (set xs)"
proof -
  define l where "l = binarySearch cmp pivot xs 0 (length xs)"
  have "set (take l xs @ pivot # drop l xs) = insert pivot (set (take l xs @ drop l xs))"
    by (simp only: set_append list.set) blast
  then show ?thesis
    by (simp only: binaryInsert_def Let_def l_def[symmetric] append_take_drop_id)
qed

lemma length_binaryInsert: "length (binaryInsert cmp xs pivot) = Suc (length xs)"
  using binarySearch_le_length[of cmp pivot xs] by (simp add: binaryInsert_def Let_def)

lemma distinct_map_insert:
  "distinct (map f (ys @ p # zs)) \<longleftrightarrow> f p \<notin> f ` set (ys @ zs) \<and> distinct (map f (ys @ zs))"
  by auto

lemma distinct_binaryInsert:
  "distinct (map f (binaryInsert cmp xs pivot)) \<longleftrightarrow> f pivot \<notin> f ` set xs \<and> distinct (map f xs)"
  using distinct_map_insert[of f "take (binarySearch cmp pivot xs 0 (length xs)) xs" pivot
      "drop (binarySearch cmp pivot xs 0 (length xs)) xs"]
  by (simp only: binaryInsert_def Let_def append_take_drop_id)

lemma set_foldl_binaryInsert: "set (foldl (binaryInsert cmp) ys zs) = set ys \<union> set zs"
  by (induction zs arbitrary: ys) (simp_all add: set_binaryInsert)

lemma length_foldl_binaryInsert:
  "length (foldl (binaryInsert cmp) ys zs) = length ys + length zs"
  by (induction zs arbitrary: ys) (simp_all add: length_binaryInsert)

lemma distinct_foldl_binaryInsert:
  "distinct (map f (foldl (binaryInsert cmp) ys zs)) \<longleftrightarrow> distinct (map f (ys @ zs))"
  by (induction zs arbitrary: ys) (auto simp: distinct_binaryInsert set_binaryInsert)

lemma js_sort_cases:
  obtains "js_sort cmp xs = xs"
  | n where "js_sort cmp xs = foldl (binaryInsert cmp) (take n xs) (drop n xs)"
  | n where "js_sort cmp xs = foldl (binaryInsert cmp) (rev (take n xs)) (drop n xs)"
proof (cases xs)
  case Nil
  then show ?thesis using that(1) by (simp add: js_sort_def)
next
  case (Cons a as)
  show ?thesis
  proof (cases as)
    case Nil
    then show ?thesis using that(1) Cons by (simp add: js_sort_def)
  next
    case (Cons b bs)
    define n where "n = 2 + countRun cmp (negative (cmp b a)) b bs"
    have "js_sort cmp xs =
        foldl (binaryInsert cmp) (if negative (cmp b a) then rev (take n xs) else take n xs)
          (drop n xs)"
      unfolding js_sort_def \<open>xs = a # as\<close> Cons n_def by (simp only: list.case Let_def)
    then show ?thesis using that(2,3) by (cases "negative (cmp b a)") simp_all
  qed
qed

lemma set_take_drop: "set (take n xs) \<union> set (drop n xs) = set xs"
  using set_append[of "take n xs" "drop n xs"] by (simp only: append_take_drop_id)

lemma set_js_sort: "set (js_sort cmp xs) = set xs"
  by (rule js_sort_cases[of cmp xs])
    (simp_all only: set_foldl_binaryInsert set_rev set_take_drop)

lemma length_js_sort: "length (js_sort cmp xs) = length xs"
  by (rule js_sort_cases[of cmp xs])
    (simp_all add: length_foldl_binaryInsert)

lemma distinct_js_sort: "distinct (map f (js_sort cmp xs)) \<longleftrightarrow> distinct (map f xs)"
proof -
  have a: "distinct (map f (take n xs @ drop n xs)) \<longleftrightarrow> distinct (map f xs)" for n
    by (simp only: append_take_drop_id)
  have "distinct (map f (rev ys @ zs)) \<longleftrightarrow> distinct (map f (ys @ zs))" for ys zs
    by (simp add: rev_map[symmetric])
  from this[of "take n xs" "drop n xs" for n]
  have b: "distinct (map f (rev (take n xs) @ drop n xs)) \<longleftrightarrow> distinct (map f xs)" for n
    by (simp only: a)
  show ?thesis
    by (rule js_sort_cases[of cmp xs]) (simp_all only: distinct_foldl_binaryInsert a b)
qed

text \<open>
  Where the comparator is the order of a key, the search finds the place after the
  elements whose key is at most the key of the pivot.
\<close>

lemma binarySearch_key:
  fixes k :: "'a \<Rightarrow> 'b::linorder"
  shows "(\<And>y. y \<in> set xs \<Longrightarrow> negative (cmp pivot y) = (k pivot < k y)) \<Longrightarrow>
    sorted_wrt (\<lambda>a b. k a \<le> k b) xs \<Longrightarrow>
    left \<le> right \<Longrightarrow> right \<le> length xs \<Longrightarrow>
    (\<And>i. i < left \<Longrightarrow> k (xs ! i) \<le> k pivot) \<Longrightarrow>
    (\<And>i. right \<le> i \<Longrightarrow> i < length xs \<Longrightarrow> k pivot < k (xs ! i)) \<Longrightarrow>
    (\<forall>i < binarySearch cmp pivot xs left right. k (xs ! i) \<le> k pivot)
    \<and> (\<forall>i. binarySearch cmp pivot xs left right \<le> i \<longrightarrow> i < length xs
           \<longrightarrow> k pivot < k (xs ! i))"
proof (induction cmp pivot xs left right rule: binarySearch.induct)
  case (1 cmp pivot xs left right)
  show ?case
  proof (cases "left < right")
    case False
    then have "left = right" using "1.prems"(3) by simp
    then show ?thesis using "1.prems"(5,6) by (simp add: binarySearch_done)
  next
    case True
    define mid where "mid = left + (right - left) div 2"
    have m: "left \<le> mid" "mid < right" using True by (simp_all add: mid_def)
    have len: "mid < length xs" using m "1.prems"(4) by simp
    note step = binarySearch_step[OF True mid_def, of cmp pivot xs]
    have mono: "k (xs ! i) \<le> k (xs ! j)" if "i \<le> j" "j < length xs" for i j
      using "1.prems"(2) that by (cases "i = j") (simp_all add: sorted_wrt_iff_nth_less)
    have key: "negative (cmp pivot (xs ! mid)) = (k pivot < k (xs ! mid))"
      using "1.prems"(1)[of "xs ! mid"] len by simp
    show ?thesis
    proof (cases "negative (cmp pivot (xs ! mid))")
      case n: True
      have up: "k pivot < k (xs ! i)" if "mid \<le> i" "i < length xs" for i
        using mono[OF that] n key by simp
      have "(\<forall>i < binarySearch cmp pivot xs left mid. k (xs ! i) \<le> k pivot)
          \<and> (\<forall>i. binarySearch cmp pivot xs left mid \<le> i \<longrightarrow> i < length xs
                 \<longrightarrow> k pivot < k (xs ! i))"
      proof (rule "1.IH"(1)[OF True mid_def n])
        show "negative (cmp pivot y) = (k pivot < k y)" if "y \<in> set xs" for y
          using "1.prems"(1)[OF that] .
        show "sorted_wrt (\<lambda>a b. k a \<le> k b) xs" using "1.prems"(2) .
        show "left \<le> mid" using m by simp
        show "mid \<le> length xs" using len by simp
        show "k (xs ! i) \<le> k pivot" if "i < left" for i using "1.prems"(5)[OF that] .
        show "k pivot < k (xs ! i)" if "mid \<le> i" "i < length xs" for i using up[OF that] .
      qed
      then show ?thesis using n by (simp only: step if_True)
    next
      case n: False
      have low: "k (xs ! i) \<le> k pivot" if "i < mid + 1" for i
      proof -
        have "k (xs ! i) \<le> k (xs ! mid)" using mono[of i mid] that len by simp
        moreover have "k (xs ! mid) \<le> k pivot" using n key by simp
        ultimately show ?thesis by simp
      qed
      have "(\<forall>i < binarySearch cmp pivot xs (mid + 1) right. k (xs ! i) \<le> k pivot)
          \<and> (\<forall>i. binarySearch cmp pivot xs (mid + 1) right \<le> i \<longrightarrow> i < length xs
                 \<longrightarrow> k pivot < k (xs ! i))"
      proof (rule "1.IH"(2)[OF True mid_def n])
        show "negative (cmp pivot y) = (k pivot < k y)" if "y \<in> set xs" for y
          using "1.prems"(1)[OF that] .
        show "sorted_wrt (\<lambda>a b. k a \<le> k b) xs" using "1.prems"(2) .
        show "mid + 1 \<le> right" using m by simp
        show "right \<le> length xs" using "1.prems"(4) .
        show "k (xs ! i) \<le> k pivot" if "i < mid + 1" for i using low[OF that] .
        show "k pivot < k (xs ! i)" if "right \<le> i" "i < length xs" for i
          using "1.prems"(6)[OF that] .
      qed
      then show ?thesis using n by (simp only: step if_False)
    qed
  qed
qed

text \<open>
  \<open>Q\<close> is a relation that holds from every element of the array to every later one.
  The insertion of an element that comes after all of a sorted array keeps it sorted by
  the key and, among equal keys, by \<open>Q\<close>.
\<close>

lemma sorted_binaryInsert:
  fixes k :: "'a \<Rightarrow> 'b::linorder"
  assumes cmp: "\<And>y. y \<in> set ys \<Longrightarrow> negative (cmp p y) = (k p < k y)"
    and srt: "sorted_wrt (\<lambda>a b. k a < k b \<or> (k a = k b \<and> Q a b)) ys"
    and after: "\<And>y. y \<in> set ys \<Longrightarrow> Q y p"
  shows "sorted_wrt (\<lambda>a b. k a < k b \<or> (k a = k b \<and> Q a b)) (binaryInsert cmp ys p)"
proof -
  let ?R = "\<lambda>a b. k a < k b \<or> (k a = k b \<and> Q a b)"
  define l where "l = binarySearch cmp p ys 0 (length ys)"
  have le: "sorted_wrt (\<lambda>a b. k a \<le> k b) ys"
    by (rule sorted_wrt_mono_rel[OF _ srt]) auto
  have bs: "(\<forall>i < l. k (ys ! i) \<le> k p)
      \<and> (\<forall>i. l \<le> i \<longrightarrow> i < length ys \<longrightarrow> k p < k (ys ! i))"
    unfolding l_def
  proof (rule binarySearch_key)
    show "negative (cmp p y) = (k p < k y)" if "y \<in> set ys" for y using cmp[OF that] .
    show "sorted_wrt (\<lambda>a b. k a \<le> k b) ys" using le .
    show "(0::nat) \<le> length ys" by simp
    show "length ys \<le> length ys" by simp
    show "k (ys ! i) \<le> k p" if "i < 0" for i using that by simp
    show "k p < k (ys ! i)" if "length ys \<le> i" "i < length ys" for i using that by simp
  qed
  have ll: "l \<le> length ys" unfolding l_def by (rule binarySearch_le_length)
  have both: "sorted_wrt ?R (take l ys @ drop l ys)"
    using srt by (simp only: append_take_drop_id)
  have low: "?R x p" if xin: "x \<in> set (take l ys)" for x
  proof -
    obtain i where "i < l" "i < length ys" "x = ys ! i"
      using xin ll by (auto simp: in_set_conv_nth)
    then have "k x \<le> k p" using bs by simp
    moreover have "Q x p" using after in_set_takeD[OF xin] .
    ultimately show ?thesis by auto
  qed
  have up: "?R p y" if yin: "y \<in> set (drop l ys)" for y
  proof -
    obtain j where j: "j < length ys - l" "y = ys ! (l + j)"
      using yin ll by (auto simp: in_set_conv_nth)
    obtain i where "l \<le> i" "i < length ys" "y = ys ! i"
      using j by (intro that[of "l + j"]) simp_all
    then show ?thesis using bs by simp
  qed
  have parts: "sorted_wrt ?R (take l ys)" "sorted_wrt ?R (drop l ys)"
    "\<And>x y. x \<in> set (take l ys) \<Longrightarrow> y \<in> set (drop l ys) \<Longrightarrow> ?R x y"
    using both unfolding sorted_wrt_append by blast+
  have "sorted_wrt ?R (take l ys @ p # drop l ys)"
    unfolding sorted_wrt_append sorted_wrt.simps(2) set_simps
    using parts low up by blast
  then show ?thesis by (simp only: binaryInsert_def Let_def l_def)
qed

lemma sorted_foldl_binaryInsert:
  fixes k :: "'a \<Rightarrow> 'b::linorder"
  assumes cmp: "\<And>a b. a \<in> A \<Longrightarrow> b \<in> A \<Longrightarrow> negative (cmp a b) = (k a < k b)"
  shows "set ys \<subseteq> A \<Longrightarrow> set zs \<subseteq> A \<Longrightarrow>
    sorted_wrt (\<lambda>a b. k a < k b \<or> (k a = k b \<and> Q a b)) ys \<Longrightarrow>
    sorted_wrt Q zs \<Longrightarrow> (\<And>y z. y \<in> set ys \<Longrightarrow> z \<in> set zs \<Longrightarrow> Q y z) \<Longrightarrow>
    sorted_wrt (\<lambda>a b. k a < k b \<or> (k a = k b \<and> Q a b)) (foldl (binaryInsert cmp) ys zs)"
proof (induction zs arbitrary: ys)
  case Nil
  then show ?case by simp
next
  case (Cons z zs)
  have s: "sorted_wrt (\<lambda>a b. k a < k b \<or> (k a = k b \<and> Q a b)) (binaryInsert cmp ys z)"
  proof (rule sorted_binaryInsert)
    show "negative (cmp z y) = (k z < k y)" if "y \<in> set ys" for y
      using cmp[of z y] that Cons.prems(1,2) by auto
    show "sorted_wrt (\<lambda>a b. k a < k b \<or> (k a = k b \<and> Q a b)) ys" using Cons.prems(3) .
    show "Q y z" if "y \<in> set ys" for y using Cons.prems(5)[of y z] that by simp
  qed
  have "sorted_wrt (\<lambda>a b. k a < k b \<or> (k a = k b \<and> Q a b))
          (foldl (binaryInsert cmp) (binaryInsert cmp ys z) zs)"
  proof (rule Cons.IH)
    show "set (binaryInsert cmp ys z) \<subseteq> A"
      using Cons.prems(1,2) by (simp add: set_binaryInsert)
    show "set zs \<subseteq> A" using Cons.prems(2) by simp
    show "sorted_wrt (\<lambda>a b. k a < k b \<or> (k a = k b \<and> Q a b)) (binaryInsert cmp ys z)"
      using s .
    show "sorted_wrt Q zs" using Cons.prems(4) by simp
    show "Q y w" if "y \<in> set (binaryInsert cmp ys z)" "w \<in> set zs" for y w
    proof (cases "y = z")
      case True
      then show ?thesis using Cons.prems(4) that(2) by simp
    next
      case False
      then have "y \<in> set ys" using that(1) by (simp add: set_binaryInsert)
      then show ?thesis using Cons.prems(5)[of y w] that(2) by simp
    qed
  qed
  then show ?case by simp
qed

text \<open>The run that the sort finds at the start of the array is ordered.\<close>

lemma sorted_countRun:
  assumes step: "\<And>a b. a \<in> A \<Longrightarrow> b \<in> A \<Longrightarrow> negative (cmp b a) = isDescending \<Longrightarrow> P a b"
    and trans: "\<And>a b c. P a b \<Longrightarrow> P b c \<Longrightarrow> P a c"
  shows "previous \<in> A \<Longrightarrow> set rest \<subseteq> A \<Longrightarrow>
    sorted_wrt P (previous # take (countRun cmp isDescending previous rest) rest)"
proof (induction rest arbitrary: previous)
  case Nil
  then show ?case by simp
next
  case (Cons x rest)
  show ?case
  proof (cases "negative (cmp x previous) = isDescending")
    case False
    then show ?thesis by simp
  next
    case True
    have px: "P previous x" using step[of previous x] True Cons.prems by simp
    have s: "sorted_wrt P (x # take (countRun cmp isDescending x rest) rest)"
      using Cons.IH[of x] Cons.prems by simp
    then have "P previous y" if "y \<in> set (take (countRun cmp isDescending x rest) rest)" for y
      using trans[OF px, of y] that by auto
    then show ?thesis using True px s by simp
  qed
qed

lemma sorted_wrt_conj:
  "sorted_wrt P xs \<Longrightarrow> sorted_wrt Q xs \<Longrightarrow> sorted_wrt (\<lambda>a b. P a b \<and> Q a b) xs"
  by (induction xs) auto

lemma js_sort_run:
  "js_sort cmp (a # b # rest) =
     foldl (binaryInsert cmp)
       (if negative (cmp b a)
        then rev (a # take (countRun cmp (negative (cmp b a)) a (b # rest)) (b # rest))
        else a # take (countRun cmp (negative (cmp b a)) a (b # rest)) (b # rest))
       (drop (countRun cmp (negative (cmp b a)) a (b # rest)) (b # rest))"
  by (simp add: js_sort_def Let_def)

text \<open>
  Where the comparator is the order of a key on the elements of the array, the sort
  orders the array by the key and keeps the elements of equal key in the order that they
  had.
\<close>

lemma js_sort_key:
  fixes k :: "'a \<Rightarrow> 'b::linorder"
  assumes cmp: "\<And>a b. a \<in> set xs \<Longrightarrow> b \<in> set xs \<Longrightarrow> negative (cmp a b) = (k a < k b)"
    and srt: "sorted_wrt Q xs"
  shows "sorted_wrt (\<lambda>a b. k a < k b \<or> (k a = k b \<and> Q a b)) (js_sort cmp xs)"
proof (cases xs)
  case Nil
  then show ?thesis by (simp add: js_sort_def)
next
  case (Cons a as)
  show ?thesis
  proof (cases as)
    case Nil
    then show ?thesis using Cons by (simp add: js_sort_def)
  next
    case (Cons b rest)
    let ?R = "\<lambda>a b. k a < k b \<or> (k a = k b \<and> Q a b)"
    define d where "d = negative (cmp b a)"
    define n where "n = countRun cmp d a (b # rest)"
    define run where "run = a # take n (b # rest)"
    have xs: "xs = a # b # rest" using \<open>xs = a # as\<close> Cons by simp
    have split: "xs = run @ drop n (b # rest)" by (simp add: xs run_def)
    have runQ: "sorted_wrt Q run"
      and cross: "\<And>y z. y \<in> set run \<Longrightarrow> z \<in> set (drop n (b # rest)) \<Longrightarrow> Q y z"
      using srt unfolding split by (simp_all add: sorted_wrt_append)
    have sub: "set run \<subseteq> set xs" "set (drop n (b # rest)) \<subseteq> set xs"
      unfolding split by simp_all
    have first: "sorted_wrt ?R (if d then rev run else run)"
    proof (cases d)
      case True
      have "sorted_wrt (\<lambda>x y. k y < k x) (a # take (countRun cmp d a (b # rest)) (b # rest))"
      proof (rule sorted_countRun[where A = "set xs"])
        show "k y < k x" if "x \<in> set xs" "y \<in> set xs" "negative (cmp y x) = d" for x y
          using cmp[of y x] that True by simp
        show "k z < k x" if "k y < k x" "k z < k y" for x y z using that by simp
        show "a \<in> set xs" by (simp add: xs)
        show "set (b # rest) \<subseteq> set xs" by (auto simp: xs)
      qed
      then have "sorted_wrt (\<lambda>x y. k x < k y) (rev run)"
        by (simp only: sorted_wrt_rev run_def n_def)
      then have "sorted_wrt ?R (rev run)"
        by (rule sorted_wrt_mono_rel[rotated]) simp
      then show ?thesis using True by simp
    next
      case False
      have "sorted_wrt (\<lambda>x y. k x \<le> k y) (a # take (countRun cmp d a (b # rest)) (b # rest))"
      proof (rule sorted_countRun[where A = "set xs"])
        show "k x \<le> k y" if "x \<in> set xs" "y \<in> set xs" "negative (cmp y x) = d" for x y
          using cmp[of y x] that False by simp
        show "k x \<le> k z" if "k x \<le> k y" "k y \<le> k z" for x y z using that by simp
        show "a \<in> set xs" by (simp add: xs)
        show "set (b # rest) \<subseteq> set xs" by (auto simp: xs)
      qed
      then have "sorted_wrt (\<lambda>x y. k x \<le> k y \<and> Q x y) run"
        using runQ by (simp only: run_def n_def sorted_wrt_conj)
      then have "sorted_wrt ?R run"
        by (rule sorted_wrt_mono_rel[rotated]) auto
      then show ?thesis using False by simp
    qed
    have "sorted_wrt ?R
        (foldl (binaryInsert cmp) (if d then rev run else run) (drop n (b # rest)))"
    proof (rule sorted_foldl_binaryInsert[where A = "set xs"])
      show "negative (cmp x y) = (k x < k y)" if "x \<in> set xs" "y \<in> set xs" for x y
        using cmp[OF that] .
      show "set (if d then rev run else run) \<subseteq> set xs" using sub(1) by simp
      show "set (drop n (b # rest)) \<subseteq> set xs" using sub(2) .
      show "sorted_wrt ?R (if d then rev run else run)" using first .
      show "sorted_wrt Q (drop n (b # rest))"
        using srt unfolding split by (simp add: sorted_wrt_append)
      show "Q y z" if "y \<in> set (if d then rev run else run)" "z \<in> set (drop n (b # rest))"
        for y z
        using cross[of y z] that by (simp split: if_splits)
    qed
    then show ?thesis
      unfolding xs js_sort_run run_def n_def d_def by (simp only: if_distrib[of rev] cong: if_cong)
  qed
qed

text \<open>
  Sorting with the comparator \<open>f b - f a\<close>, where \<open>f\<close> is finite on the list, orders
  the list by descending \<open>f\<close>.
\<close>

lemma sorted_by_finite_key:
  assumes fin: "\<And>p. p \<in> set xs \<Longrightarrow> \<exists>r. f p = Fin r"
  shows "sorted_wrt (\<lambda>a b. js_le (f b) (f a)) (js_sort (\<lambda>a b. js_sub (f b) (f a)) xs)"
proof -
  let ?cmp = "\<lambda>a b. js_sub (f b) (f a)"
  define k where "k p = (case f p of Fin r \<Rightarrow> - r | _ \<Rightarrow> 0)" for p
  have key: "negative (?cmp a b) = (k a < k b)"
    if ain: "a \<in> set xs" and bin: "b \<in> set xs" for a b
  proof -
    obtain x y where "f a = Fin x" "f b = Fin y"
      using fin[OF ain] fin[OF bin] by blast
    then show ?thesis by (simp add: k_def js_sub_def)
  qed
  have s: "sorted_wrt (\<lambda>a b. k a < k b \<or> (k a = k b \<and> True)) (js_sort ?cmp xs)"
  proof (rule js_sort_key)
    show "negative (?cmp a b) = (k a < k b)" if "a \<in> set xs" "b \<in> set xs" for a b
      using key[OF that] .
    show "sorted_wrt (\<lambda>a b. True) xs" by simp
  qed
  show ?thesis
  proof (rule sorted_wrt_mono_rel[OF _ s])
    fix a b assume "a \<in> set (js_sort ?cmp xs)" "b \<in> set (js_sort ?cmp xs)"
      and n: "k a < k b \<or> (k a = k b \<and> True)"
    then have ain: "a \<in> set xs" and bin: "b \<in> set xs" by (simp_all only: set_js_sort)
    obtain x y where "f a = Fin x" "f b = Fin y"
      using fin[OF ain] fin[OF bin] by blast
    then show "js_le (f b) (f a)" using n by (auto simp: k_def)
  qed
qed

text \<open>
  The sort is stable: pairs listed by ascending first component and sorted by descending
  second component are ordered by descending second component and, among equals, by
  ascending first component.
\<close>

lemma stable_sort:
  assumes "sorted_wrt (<) (map fst es)"
  shows "sorted_wrt (\<lambda>a b. snd b < snd a \<or> (snd a = snd b \<and> fst a < fst b))
           (js_sort (\<lambda>a b. Fin (real (snd b) - real (snd a))) (es :: (nat \<times> nat) list))"
proof -
  have s: "sorted_wrt (\<lambda>a b. - int (snd a) < - int (snd b)
              \<or> (- int (snd a) = - int (snd b) \<and> fst a < fst b))
           (js_sort (\<lambda>a b. Fin (real (snd b) - real (snd a))) es)"
  proof (rule js_sort_key)
    show "negative (Fin (real (snd b) - real (snd a))) = (- int (snd a) < - int (snd b))"
      for a b :: "nat \<times> nat"
      by simp
    show "sorted_wrt (\<lambda>a b. fst a < fst b) es"
      using assms by (simp only: sorted_wrt_map)
  qed
  show ?thesis
    by (rule sorted_wrt_mono_rel[OF _ s]) auto
qed

section \<open>Properties of the chest optimization\<close>

subsection \<open>The entries of the distribution\<close>

lemma distribute_elem:
  "c \<in> set (distribute xs) \<Longrightarrow>
   \<exists>t d. (t, d) \<in> set xs \<and> js_gt (cp_potential d) 0.3 \<and> ch_type c = t
     \<and> ch_potential c = cp_potential d \<and> ch_expectedValue c = cp_expectedValue d"
  by (induction xs rule: distribute.induct) (auto split: if_splits)

lemma set_update_subset: "set (AList.update k v al) \<subseteq> insert (k, v) (set al)"
  by (induction al) auto

lemma addPotential_elem:
  assumes "\<forall>p \<in> set acc. potentialFor profile configs p"
  shows "\<forall>p \<in> set (addPotential profile configs acc a). potentialFor profile configs p"
proof (cases "getProperty configs a")
  case (Own config)
  have "potentialFor profile configs (a, chestPotentialOf profile config)"
    using Own by (simp add: potentialFor_def)
  then show ?thesis
    using set_update_subset[of a "chestPotentialOf profile config" acc] assms Own
    by (auto simp: addPotential_def)
next
  case Inherited
  have "potentialFor profile configs (a, inheritedPotential)"
    using Inherited by (simp add: potentialFor_def)
  then show ?thesis
    using set_update_subset[of a inheritedPotential acc] assms Inherited
    by (auto simp: addPotential_def)
next
  case Missing
  then show ?thesis using assms by (simp add: addPotential_def)
qed

lemma potentials_fold:
  "\<forall>p \<in> set acc. potentialFor profile configs p \<Longrightarrow>
   \<forall>p \<in> set (foldl (addPotential profile configs) acc avail). potentialFor profile configs p"
proof (induction avail arbitrary: acc)
  case Nil
  then show ?case by simp
next
  case (Cons a avail)
  show ?case
    using Cons.IH[OF addPotential_elem[OF Cons.prems]] by simp
qed

lemma calculateChestPotentials_elem:
  "p \<in> set (calculateChestPotentials profile avail configs) \<Longrightarrow>
   potentialFor profile configs p"
  using potentials_fold[of "[]" profile configs avail]
  unfolding calculateChestPotentials_def by auto

lemma getProperty_Own_iff: "getProperty table k = Own v \<longleftrightarrow> map_of table k = Some v"
  by (simp add: getProperty_def split: option.split)

lemma potential_above_own:
  assumes "potentialFor profile configs (t, d)" and "js_gt (cp_potential d) c"
  shows "\<exists>config. map_of configs t = Some config \<and> d = chestPotentialOf profile config"
proof (cases "getProperty configs t")
  case (Own config)
  have "map_of configs t = Some config"
    using Own by (simp add: getProperty_Own_iff)
  moreover have "d = chestPotentialOf profile config"
    using Own assms(1) by (simp add: potentialFor_def)
  ultimately show ?thesis by simp
next
  case Inherited
  then have "cp_potential d = NaN"
    using assms(1) by (simp add: potentialFor_def inheritedPotential_def)
  then show ?thesis using assms(2) by simp
next
  case Missing
  then show ?thesis using assms(1) by (simp add: potentialFor_def)
qed

lemma adjustedPotential_bound:
  assumes "0 \<le> successRate config" "successRate config \<le> 0.7"
  shows "adjustedPotential profile config \<le> 1"
proof -
  have "adjustedPotential profile config \<le> successRate config * 1.32"
    using assms(1) by (simp add: adjustedPotential_def Let_def)
  then show ?thesis using assms(2) by simp
qed

lemma configs_rate:
  "map_of getGamificationConfigs t = Some config \<Longrightarrow>
   0 \<le> successRate config \<and> successRate config \<le> 0.7"
  by (auto simp: getGamificationConfigs_def split: if_splits)

lemma optimize_chest_elem:
  assumes "c \<in> set (chests (optimize profile availableChests))"
  shows "js_gt (ch_potential c) 0.3 \<and>
    (\<exists>config. map_of getGamificationConfigs (ch_type c) = Some config
       \<and> ch_potential c = cp_potential (chestPotentialOf profile config)
       \<and> ch_expectedValue c = cp_expectedValue (chestPotentialOf profile config))"
proof -
  obtain t d where td:
    "(t, d) \<in> set (calculateChestPotentials profile availableChests getGamificationConfigs)"
    "js_gt (cp_potential d) 0.3"
    "ch_type c = t" "ch_potential c = cp_potential d" "ch_expectedValue c = cp_expectedValue d"
    using assms
    by (auto simp: optimize_def optimizeDistribution_def Let_def set_js_sort
        dest!: distribute_elem)
  obtain config where "map_of getGamificationConfigs t = Some config"
    "d = chestPotentialOf profile config"
    using potential_above_own[OF calculateChestPotentials_elem[OF td(1)] td(2)] by blast
  then show ?thesis using td by auto
qed

subsection \<open>Expected value and potential\<close>

lemma optimize_best:
  "chests (optimize bestProfile allChests) =
     [\<lparr>ch_type = ''platinum'', ch_quantity = 1, ch_potential = Fin 0.396,
        ch_expectedValue = Fin 49.5\<rparr>,
      \<lparr>ch_type = ''gold'', ch_quantity = 2, ch_potential = Fin 0.66,
        ch_expectedValue = Fin 41.25\<rparr>,
      \<lparr>ch_type = ''silver'', ch_quantity = 3, ch_potential = Fin 0.924,
        ch_expectedValue = Fin 27.72\<rparr>]"
proof -
  have "calculateChestPotentials bestProfile allChests getGamificationConfigs =
     [(''silver'', \<lparr>cp_potential = Fin 0.924, cp_expectedValue = Fin 27.72,
          cp_config = Some \<lparr>successRate = 0.7, minValue = 10.0, maxValue = 50.0\<rparr>\<rparr>),
      (''gold'', \<lparr>cp_potential = Fin 0.66, cp_expectedValue = Fin 41.25,
          cp_config = Some \<lparr>successRate = 0.5, minValue = 25.0, maxValue = 100.0\<rparr>\<rparr>),
      (''platinum'', \<lparr>cp_potential = Fin 0.396, cp_expectedValue = Fin 49.5,
          cp_config = Some \<lparr>successRate = 0.3, minValue = 50.0, maxValue = 200.0\<rparr>\<rparr>)]"
    by (simp add: calculateChestPotentials_def addPotential_def bestProfile_def allChests_def
        getGamificationConfigs_def getProperty_def chestPotentialOf_def adjustedPotential_def
        Let_def)
  then show ?thesis
    by (simp add: optimize_def optimizeDistribution_def Let_def calculateOptimalQuantity_def
        js_sub_def js_sort_def binaryInsert_def binarySearch.simps)
qed

text \<open>
  C2. For every entry of the distribution returned by \<open>optimize\<close>, the tier of the entry
  has a configuration in the table, the potential of the entry is the adjusted success
  rate of that configuration clamped to at most 1.0, and the expected value of the entry
  is the midpoint of the configuration's minimum and maximum value multiplied by that
  potential.
\<close>

theorem optimize_expectedValue:
  "\<forall>c \<in> set (chests (optimize profile availableChests)).
     \<exists>config. map_of getGamificationConfigs (ch_type c) = Some config
       \<and> ch_potential c = Fin (min 1.0 (adjustedPotential profile config))
       \<and> ch_expectedValue c =
           Fin ((minValue config + maxValue config) / 2
                * min 1.0 (adjustedPotential profile config))"
proof
  fix c assume "c \<in> set (chests (optimize profile availableChests))"
  then obtain config where cf: "map_of getGamificationConfigs (ch_type c) = Some config"
    "ch_potential c = cp_potential (chestPotentialOf profile config)"
    "ch_expectedValue c = cp_expectedValue (chestPotentialOf profile config)"
    using optimize_chest_elem by blast
  have "adjustedPotential profile config \<le> 1"
    using configs_rate[OF cf(1)] adjustedPotential_bound by blast
  then have "min 1.0 (adjustedPotential profile config) = adjustedPotential profile config"
    by simp
  then show "\<exists>config. map_of getGamificationConfigs (ch_type c) = Some config
       \<and> ch_potential c = Fin (min 1.0 (adjustedPotential profile config))
       \<and> ch_expectedValue c =
           Fin ((minValue config + maxValue config) / 2
                * min 1.0 (adjustedPotential profile config))"
    using cf by (auto simp: chestPotentialOf_def Let_def)
qed

theorem optimize_expectedValue_witness:
  "\<lparr>ch_type = ''gold'', ch_quantity = 2, ch_potential = Fin 0.66,
     ch_expectedValue = Fin 41.25\<rparr>
     \<in> set (chests (optimize bestProfile allChests))
   \<and> map_of getGamificationConfigs ''gold''
       = Some \<lparr>successRate = 0.5, minValue = 25.0, maxValue = 100.0\<rparr>
   \<and> Fin 0.66
       = Fin (min 1.0 (adjustedPotential bestProfile
                    \<lparr>successRate = 0.5, minValue = 25.0, maxValue = 100.0\<rparr>))
   \<and> Fin 41.25
       = Fin ((25.0 + 100.0) / 2
              * min 1.0 (adjustedPotential bestProfile
                    \<lparr>successRate = 0.5, minValue = 25.0, maxValue = 100.0\<rparr>))"
proof -
  have m: "\<lparr>ch_type = ''gold'', ch_quantity = 2, ch_potential = Fin 0.66,
     ch_expectedValue = Fin 41.25\<rparr>
     \<in> set (chests (optimize bestProfile allChests))"
    by (simp add: optimize_best)
  have g: "map_of getGamificationConfigs ''gold''
       = Some \<lparr>successRate = 0.5, minValue = 25.0, maxValue = 100.0\<rparr>"
    by (simp add: getGamificationConfigs_def)
  show ?thesis
    using m g optimize_expectedValue[of bestProfile allChests] by fastforce
qed

text \<open>
  The bound on the success rate is needed. \<open>calculateChestPotentials\<close> takes the table
  as an argument, and for a table with a higher success rate the adjusted potential
  exceeds 1.0: the stored potential is then 1.0, while the expected value is computed
  from the potential before the clamp.
\<close>

lemma expectedValue_before_clamp:
  "calculateChestPotentials bestProfile [''diamond'']
     [(''diamond'', \<lparr>successRate = 0.9, minValue = 100, maxValue = 300\<rparr>)]
   = [(''diamond'', \<lparr>cp_potential = Fin 1, cp_expectedValue = Fin 237.6,
         cp_config = Some \<lparr>successRate = 0.9, minValue = 100, maxValue = 300\<rparr>\<rparr>)]"
  by (simp add: calculateChestPotentials_def addPotential_def getProperty_def bestProfile_def
      chestPotentialOf_def adjustedPotential_def Let_def)

subsection \<open>Filter and order of the distribution\<close>

text \<open>Every entry of the distribution has a potential above 0.3.\<close>

lemma optimize_potential_above:
  "c \<in> set (chests (optimize profile availableChests)) \<Longrightarrow> js_gt (ch_potential c) 0.3"
  using optimize_chest_elem by blast

text \<open>
  When no requested tier id names an inherited property, the distribution is in order of
  non-increasing expected value.
\<close>

lemma addPotential_keys:
  "fst ` set (addPotential profile configs acc a) \<subseteq> insert a (fst ` set acc)"
  by (cases "getProperty configs a") (auto simp: addPotential_def dom_update)

lemma potentials_keys:
  "fst ` set (foldl (addPotential profile configs) acc avail) \<subseteq> fst ` set acc \<union> set avail"
proof (induction avail arbitrary: acc)
  case Nil
  then show ?case by simp
next
  case (Cons a avail)
  show ?case
    using Cons.IH[of "addPotential profile configs acc a"]
      addPotential_keys[of profile configs acc a]
    by auto
qed

lemma own_potentials:
  assumes "set avail \<inter> set inheritedNames = {}"
    and "p \<in> set (calculateChestPotentials profile avail configs)"
  shows "\<exists>config. snd p = chestPotentialOf profile config"
proof -
  have "fst p \<in> set avail"
    using potentials_keys[of profile configs "[]" avail] assms(2)
    by (auto simp: calculateChestPotentials_def)
  then have "getProperty configs (fst p) \<noteq> Inherited"
    using assms(1) by (auto simp: getProperty_def split: option.splits)
  then show ?thesis
    using calculateChestPotentials_elem[OF assms(2)]
    by (cases "getProperty configs (fst p)") (auto simp: potentialFor_def)
qed

lemma addPotential_distinct:
  "distinct (map fst acc) \<Longrightarrow> distinct (map fst (addPotential profile configs acc a))"
  by (cases "getProperty configs a") (simp_all add: addPotential_def distinct_update)

lemma addPotential_names:
  "fst ` set (addPotential profile configs acc a)
     \<subseteq> fst ` set acc \<union> fst ` set configs \<union> (set inheritedNames - {''__proto__''})"
proof (cases "getProperty configs a")
  case (Own config)
  then have "a \<in> fst ` set configs"
    by (auto simp: getProperty_def split: option.splits if_splits dest: map_of_SomeD intro: rev_image_eqI)
  then show ?thesis using Own by (auto simp: addPotential_def dom_update)
next
  case Inherited
  then have "a \<in> set inheritedNames"
    by (auto simp: getProperty_def split: option.splits if_splits)
  then show ?thesis using Inherited by (auto simp: addPotential_def dom_update)
next
  case Missing
  then show ?thesis by (auto simp: addPotential_def)
qed

lemma potentials_names:
  "distinct (map fst acc) \<Longrightarrow>
   fst ` set acc \<subseteq> fst ` set configs \<union> (set inheritedNames - {''__proto__''}) \<Longrightarrow>
   distinct (map fst (foldl (addPotential profile configs) acc avail))
   \<and> fst ` set (foldl (addPotential profile configs) acc avail)
       \<subseteq> fst ` set configs \<union> (set inheritedNames - {''__proto__''})"
proof (induction avail arbitrary: acc)
  case Nil
  then show ?case by simp
next
  case (Cons a avail)
  show ?case
    using Cons.IH[of "addPotential profile configs acc a"]
      addPotential_names[of profile configs acc a]
      addPotential_distinct[OF Cons.prems(1), of profile configs a] Cons.prems(2)
    by (simp add: subset_iff) blast
qed

text \<open>The array that the optimization sorts has at most 14 elements.\<close>

lemma potentials_short:
  "length (calculateChestPotentials profile availableChests getGamificationConfigs) \<le> 14"
proof -
  let ?P = "calculateChestPotentials profile availableChests getGamificationConfigs"
  let ?names = "map fst getGamificationConfigs @ removeAll ''__proto__'' inheritedNames"
  have p: "distinct (map fst ?P)" "fst ` set ?P \<subseteq> set ?names"
    using potentials_names[of "[]" getGamificationConfigs profile availableChests]
    by (simp_all add: calculateChestPotentials_def)
  have "length ?P = card (fst ` set ?P)"
    using distinct_card[OF p(1)] by simp
  also have "\<dots> \<le> card (set ?names)"
    by (rule card_mono[OF _ p(2)]) simp
  also have "\<dots> \<le> length ?names" by (rule card_length)
  also have "\<dots> = 14" by (simp add: getGamificationConfigs_def inheritedNames_def)
  finally show ?thesis .
qed

lemma sorted_distribute:
  "sorted_wrt (\<lambda>a b. js_le (cp_expectedValue (snd b)) (cp_expectedValue (snd a))) xs \<Longrightarrow>
   sorted_wrt (\<lambda>a b. js_le (ch_expectedValue b) (ch_expectedValue a)) (distribute xs)"
proof (induction xs rule: distribute.induct)
  case 1
  then show ?case by simp
next
  case (2 chestType d rest)
  have tl: "sorted_wrt (\<lambda>a b. js_le (ch_expectedValue b) (ch_expectedValue a))
              (distribute rest)"
    using 2 by (cases "js_gt (cp_potential d) 0.3") simp_all
  have hd: "js_le (ch_expectedValue c) (cp_expectedValue d)"
    if c: "c \<in> set (distribute rest)" for c
  proof -
    obtain t e where "(t, e) \<in> set rest" "ch_expectedValue c = cp_expectedValue e"
      using distribute_elem[OF c] by blast
    then show ?thesis using "2.prems" by auto
  qed
  show ?case
    using tl hd by simp
qed

lemma optimize_sorted_own:
  assumes "set availableChests \<inter> set inheritedNames = {}"
  shows "sorted_wrt (\<lambda>a b. js_le (ch_expectedValue b) (ch_expectedValue a))
           (chests (optimize profile availableChests))"
proof -
  let ?P = "calculateChestPotentials profile availableChests getGamificationConfigs"
  have fin: "\<exists>r. cp_expectedValue (snd p) = Fin r" if pin: "p \<in> set ?P" for p
  proof -
    obtain config where "snd p = chestPotentialOf profile config"
      using own_potentials[OF assms pin] by blast
    then have "cp_expectedValue (snd p)
        = Fin ((minValue config + maxValue config) / 2 * adjustedPotential profile config)"
      by (simp add: chestPotentialOf_def Let_def)
    then show ?thesis by blast
  qed
  have "sorted_wrt (\<lambda>a b. js_le (cp_expectedValue (snd b)) (cp_expectedValue (snd a)))
      (js_sort (\<lambda>a b. js_sub (cp_expectedValue (snd b)) (cp_expectedValue (snd a))) ?P)"
    using sorted_by_finite_key[of ?P "\<lambda>p. cp_expectedValue (snd p)"] fin by blast
  then have "sorted_wrt (\<lambda>a b. js_le (ch_expectedValue b) (ch_expectedValue a))
      (distribute
        (js_sort (\<lambda>a b. js_sub (cp_expectedValue (snd b)) (cp_expectedValue (snd a))) ?P))"
    by (rule sorted_distribute)
  then show ?thesis
    by (simp only: optimize_def optimizeDistribution_def Let_def optimization.simps)
qed

text \<open>
  C4 asks for this order for every list of tier ids, and there the code fails. The request
  \<open>['silver', 'toString', 'gold']\<close> names a property that the table inherits: the
  test \<open>!config\<close> does not skip it, its entry has the expected value \<open>NaN\<close>, the
  comparator answers \<open>NaN\<close> for every pair with that entry, and the sort leaves silver
  (expected value 21) before gold (expected value 31.25).
\<close>

theorem optimize_inherited_name_unsorted:
  "chests (optimize midProfile oddChests) =
     [\<lparr>ch_type = ''silver'', ch_quantity = 2, ch_potential = Fin 0.7,
        ch_expectedValue = Fin 21\<rparr>,
      \<lparr>ch_type = ''gold'', ch_quantity = 1, ch_potential = Fin 0.5,
        ch_expectedValue = Fin 31.25\<rparr>]
   \<and> \<not> sorted_wrt (\<lambda>a b. js_le (ch_expectedValue b) (ch_expectedValue a))
         (chests (optimize midProfile oddChests))"
proof -
  have p: "calculateChestPotentials midProfile oddChests getGamificationConfigs =
     [(''silver'', \<lparr>cp_potential = Fin 0.7, cp_expectedValue = Fin 21,
          cp_config = Some \<lparr>successRate = 0.7, minValue = 10.0, maxValue = 50.0\<rparr>\<rparr>),
      (''toString'', \<lparr>cp_potential = NaN, cp_expectedValue = NaN, cp_config = None\<rparr>),
      (''gold'', \<lparr>cp_potential = Fin 0.5, cp_expectedValue = Fin 31.25,
          cp_config = Some \<lparr>successRate = 0.5, minValue = 25.0, maxValue = 100.0\<rparr>\<rparr>)]"
    by (simp add: calculateChestPotentials_def addPotential_def midProfile_def oddChests_def
        getGamificationConfigs_def getProperty_def inheritedNames_def inheritedPotential_def
        chestPotentialOf_def adjustedPotential_def Let_def)
  have c: "chests (optimize midProfile oddChests) =
     [\<lparr>ch_type = ''silver'', ch_quantity = 2, ch_potential = Fin 0.7,
        ch_expectedValue = Fin 21\<rparr>,
      \<lparr>ch_type = ''gold'', ch_quantity = 1, ch_potential = Fin 0.5,
        ch_expectedValue = Fin 31.25\<rparr>]"
    by (simp add: optimize_def optimizeDistribution_def p Let_def
        calculateOptimalQuantity_def js_sub_def js_sort_def binaryInsert_def
        binarySearch.simps)
  show ?thesis
    by (simp add: c)
qed

text \<open>
  With platinum before the inherited name, the sort finds the descending run silver,
  platinum, reverses it, and puts gold between the two by the binary search: the chests
  are in order, platinum (potential 0.3) being filtered out.
\<close>

lemma optimize_inherited_name_after_platinum:
  "chests (optimize midProfile [''silver'', ''platinum'', ''toString'', ''gold'']) =
     [\<lparr>ch_type = ''gold'', ch_quantity = 1, ch_potential = Fin 0.5,
        ch_expectedValue = Fin 31.25\<rparr>,
      \<lparr>ch_type = ''silver'', ch_quantity = 2, ch_potential = Fin 0.7,
        ch_expectedValue = Fin 21\<rparr>]"
proof -
  have p: "calculateChestPotentials midProfile [''silver'', ''platinum'', ''toString'', ''gold'']
       getGamificationConfigs =
     [(''silver'', \<lparr>cp_potential = Fin 0.7, cp_expectedValue = Fin 21,
          cp_config = Some \<lparr>successRate = 0.7, minValue = 10.0, maxValue = 50.0\<rparr>\<rparr>),
      (''platinum'', \<lparr>cp_potential = Fin 0.3, cp_expectedValue = Fin 37.5,
          cp_config = Some \<lparr>successRate = 0.3, minValue = 50.0, maxValue = 200.0\<rparr>\<rparr>),
      (''toString'', \<lparr>cp_potential = NaN, cp_expectedValue = NaN, cp_config = None\<rparr>),
      (''gold'', \<lparr>cp_potential = Fin 0.5, cp_expectedValue = Fin 31.25,
          cp_config = Some \<lparr>successRate = 0.5, minValue = 25.0, maxValue = 100.0\<rparr>\<rparr>)]"
    by (simp add: calculateChestPotentials_def addPotential_def midProfile_def
        getGamificationConfigs_def getProperty_def inheritedNames_def inheritedPotential_def
        chestPotentialOf_def adjustedPotential_def Let_def)
  show ?thesis
    by (simp add: optimize_def optimizeDistribution_def p Let_def
        calculateOptimalQuantity_def js_sub_def js_sort_def binaryInsert_def
        binarySearch.simps)
qed

section \<open>Properties of the peak hours\<close>

lemma countHour_keys: "fst ` set (countHour h acc) = insert h (fst ` set acc)"
  by (induction h acc rule: countHour.induct) auto

lemma countHour_sorted:
  "sorted_wrt (<) (map fst acc) \<Longrightarrow> sorted_wrt (<) (map fst (countHour h acc))"
proof (induction h acc rule: countHour.induct)
  case (1 h)
  then show ?case by simp
next
  case (2 h k c kcs)
  have "\<forall>x\<in>fst ` set (countHour h kcs). k < x" if "k < h"
    using that 2(2) by (auto simp: countHour_keys)
  then show ?case using 2 by auto
qed

lemma map_of_below_None:
  "\<forall>k \<in> fst ` set acc. (h::nat) < k \<Longrightarrow> map_of acc h = None"
  by (induction acc) auto

lemma countHour_map_of:
  "sorted_wrt (<) (map fst acc) \<Longrightarrow>
   map_of (countHour h acc) x =
     (if x = h then Some (case map_of acc h of None \<Rightarrow> 1 | Some c \<Rightarrow> c + 1)
      else map_of acc x)"
proof (induction h acc rule: countHour.induct)
  case (1 h)
  then show ?case by simp
next
  case (2 h k c kcs)
  consider "h = k" | "h < k" | "k < h" by linarith
  then show ?case
  proof cases
    case 1
    then show ?thesis by simp
  next
    case 2
    have "map_of kcs h = None"
      using 2 "2.prems" by (intro map_of_below_None) auto
    then show ?thesis using 2 by simp
  next
    case 3
    then show ?thesis using 2 by auto
  qed
qed

lemma countMap_snoc:
  "countMap (pre @ [h]) x =
     (if x = h then Some (case countMap pre h of None \<Rightarrow> 1 | Some c \<Rightarrow> c + 1)
      else countMap pre x)"
  by (auto simp: countMap_def count_list_0_iff)

lemma hourCounts_fold:
  "sorted_wrt (<) (map fst acc) \<Longrightarrow> \<forall>x. map_of acc x = countMap pre x \<Longrightarrow>
   sorted_wrt (<) (map fst (foldl (\<lambda>acc h. countHour h acc) acc hs))
   \<and> (\<forall>x. map_of (foldl (\<lambda>acc h. countHour h acc) acc hs) x = countMap (pre @ hs) x)"
proof (induction hs arbitrary: acc pre)
  case Nil
  then show ?case by simp
next
  case (Cons h hs)
  have s: "sorted_wrt (<) (map fst (countHour h acc))"
    using Cons.prems(1) by (rule countHour_sorted)
  have m: "\<forall>x. map_of (countHour h acc) x = countMap (pre @ [h]) x"
    using Cons.prems(2) by (simp add: countHour_map_of[OF Cons.prems(1)] countMap_snoc)
  show ?case
    using Cons.IH[OF s m] by simp
qed

lemma hourCounts_props:
  "sorted_wrt (<) (map fst (hourCounts hs))"
  "map_of (hourCounts hs) x = countMap hs x"
  using hourCounts_fold[of "[]" "[]" hs]
  by (simp_all add: hourCounts_def countMap_def)

lemma hourCounts_elem:
  "(h, c) \<in> set (hourCounts hs) \<longleftrightarrow> h \<in> set hs \<and> c = count_list hs h"
proof -
  have "distinct (map fst (hourCounts hs))"
    using hourCounts_props(1)[of hs] by (simp add: strict_sorted_iff)
  then have "(h, c) \<in> set (hourCounts hs) \<longleftrightarrow> map_of (hourCounts hs) h = Some c"
    by simp
  then show ?thesis
    by (auto simp: hourCounts_props(2) countMap_def)
qed

text \<open>The array that the session analysis sorts has at most 24 elements.\<close>

lemma hourCounts_short:
  "length (hourCounts (map (\<lambda>s. utcHours (startTime s)) sessions)) \<le> 24"
proof -
  let ?hs = "map (\<lambda>s. utcHours (startTime s)) sessions"
  have d: "distinct (map fst (hourCounts ?hs))"
    using hourCounts_props(1)[of ?hs] by (simp add: strict_sorted_iff)
  have "fst ` set (hourCounts ?hs) \<subseteq> set ?hs"
    by (auto simp: hourCounts_elem)
  also have "\<dots> \<subseteq> {..<24}"
    by (auto simp: utcHours_def)
  finally have s: "fst ` set (hourCounts ?hs) \<subseteq> {..<24}" .
  have "length (hourCounts ?hs) = card (fst ` set (hourCounts ?hs))"
    using distinct_card[OF d] by simp
  also have "\<dots> \<le> card {..<(24::nat)}"
    by (rule card_mono[OF _ s]) simp
  finally show ?thesis by simp
qed

lemma peakHours_eq:
  "ses_peakHours (analyzeSessions g sessions) = identifyPeakHours g sessions"
  by (simp add: analyzeSessions_def identifyPeakHours_def hourCounts_def Let_def)

text \<open>
  C7. For every session history, the peak hours of the session analysis are the three
  (or fewer, if fewer distinct hours occur) start hours with the highest numbers of
  sessions, and of two hours with equal numbers the lower hour is preferred: the list is
  without repetition, it holds hours that occur, it is in the order of \<open>ranksBefore\<close>,
  and each of its hours ranks before every hour that occurs and is left out.
\<close>

theorem peakHours_top3:
  fixes sessions :: "session list" and getHours :: "instant \<Rightarrow> nat"
  defines "hs \<equiv> map (\<lambda>s. getHours (startTime s)) sessions"
  defines "r \<equiv> ses_peakHours (analyzeSessions getHours sessions)"
  shows "length r = min 3 (card (set hs))
    \<and> distinct r \<and> set r \<subseteq> set hs
    \<and> sorted_wrt (ranksBefore hs) r
    \<and> (\<forall>h \<in> set hs - set r. \<forall>a \<in> set r. ranksBefore hs a h)"
proof -
  define cmp :: "nat \<times> nat \<Rightarrow> nat \<times> nat \<Rightarrow> jsnum"
    where "cmp = (\<lambda>a b. Fin (real (snd b) - real (snd a)))"
  define S where "S = js_sort cmp (hourCounts hs)"
  let ?R = "\<lambda>a b :: nat \<times> nat. snd b < snd a \<or> (snd a = snd b \<and> fst a < fst b)"
  have r: "r = map fst (take 3 S)"
    by (simp add: r_def peakHours_eq identifyPeakHours_def S_def cmp_def hs_def Let_def)
  have elem: "(h, c) \<in> set S \<longleftrightarrow> h \<in> set hs \<and> c = count_list hs h" for h c
    by (simp add: S_def set_js_sort hourCounts_elem)
  have sorted: "sorted_wrt ?R S"
    unfolding S_def cmp_def by (rule stable_sort) (rule hourCounts_props(1))
  have dist: "distinct (map fst S)"
    using hourCounts_props(1)[of hs] by (simp add: S_def distinct_js_sort strict_sorted_iff)
  have keys: "fst ` set S = set hs"
    using elem by force
  have "length S = card (set hs)"
    using distinct_card[OF dist] keys by simp
  then have a: "length r = min 3 (card (set hs))"
    by (simp add: r min.commute)
  have b1: "distinct r"
    using dist by (simp add: r take_map[symmetric])
  have b2: "set r \<subseteq> set hs"
  proof
    fix x assume "x \<in> set r"
    then obtain p where "p \<in> set (take 3 S)" "x = fst p" by (auto simp: r)
    then have "p \<in> set S" by (meson in_set_takeD)
    then show "x \<in> set hs" using keys \<open>x = fst p\<close> by blast
  qed
  have rank: "ranksBefore hs (fst p) (fst q)" if "p \<in> set S" "q \<in> set S" "?R p q" for p q
  proof -
    have "snd p = count_list hs (fst p)" "snd q = count_list hs (fst q)"
      using that(1,2) elem[of "fst p" "snd p"] elem[of "fst q" "snd q"] by simp_all
    then show ?thesis using that(3) by (simp add: ranksBefore_def)
  qed
  have c: "sorted_wrt (ranksBefore hs) r"
  proof -
    have "sorted_wrt ?R (take 3 S)"
      using sorted by (rule sorted_wrt_take)
    then have "sorted_wrt (\<lambda>p q. ranksBefore hs (fst p) (fst q)) (take 3 S)"
      by (rule sorted_wrt_mono_rel[rotated]) (meson in_set_takeD rank)
    then show ?thesis by (simp add: r sorted_wrt_map)
  qed
  have d: "\<forall>h \<in> set hs - set r. \<forall>a \<in> set r. ranksBefore hs a h"
  proof (intro ballI)
    fix h a assume h: "h \<in> set hs - set r" and a: "a \<in> set r"
    obtain p where p: "p \<in> set (take 3 S)" "a = fst p" using a by (auto simp: r)
    have hin: "(h, count_list hs h) \<in> set S" using h elem by simp
    have "(h, count_list hs h) \<notin> set (take 3 S)"
      using h by (force simp: r)
    then have q: "(h, count_list hs h) \<in> set (drop 3 S)"
      using hin set_append[of "take 3 S" "drop 3 S"] by auto
    have "sorted_wrt ?R (take 3 S @ drop 3 S)" using sorted by simp
    then have "?R p (h, count_list hs h)"
      using p(1) q unfolding sorted_wrt_append by blast
    then show "ranksBefore hs a h"
      using rank[of p "(h, count_list hs h)"] p hin in_set_takeD[OF p(1)] by simp
  qed
  show ?thesis using a b1 b2 c d by blast
qed

theorem peakHours_top3_witness:
  "ses_peakHours (analyzeSessions utcHours exampleSessions) = [9, 20, 3]
   \<and> map (\<lambda>s. utcHours (startTime s)) exampleSessions = [20, 21, 20, 9, 9, 3]
   \<and> ranksBefore [20, 21, 20, 9, 9, 3] 3 21
   \<and> sorted_wrt (ranksBefore [20, 21, 20, 9, 9, 3]) [9, 20, 3]"
proof -
  have hs: "map (\<lambda>s. utcHours (startTime s)) exampleSessions = [20, 21, 20, 9, 9, 3]"
    by (simp add: exampleSessions_def utcHours_def)
  have r: "ses_peakHours (analyzeSessions utcHours exampleSessions) = [9, 20, 3]"
    by (simp add: peakHours_eq identifyPeakHours_def hs hourCounts_def Let_def
        js_sort_def binaryInsert_def binarySearch.simps)
  show ?thesis
    using peakHours_top3[of utcHours exampleSessions]
    unfolding hs r by simp
qed

end
